theory Spec2Isabelle
  imports Complex_Main
begin

section \<open>Strings\<close>

text \<open>
  JavaScript strings are modelled as Isabelle strings. The model is exact on ASCII text,
  which is where SQL keywords, the chart keywords and the answer YES live: the case
  mappings change the letters A-Z and a-z only, white space is the ASCII part of the
  class \<open>\s\<close> (tab, line feed, vertical tab, form feed, carriage return, space) and the line
  terminators are line feed and carriage return. A character outside ASCII is kept by
  both case mappings and is neither white space nor a line terminator here.
\<close>

definition isWhiteSpace :: "char \<Rightarrow> bool" where
  "isWhiteSpace c = (c \<in> set [CHR 0x09, CHR 0x0A, CHR 0x0B, CHR 0x0C, CHR 0x0D, CHR 0x20])"

definition isLineTerminator :: "char \<Rightarrow> bool" where
  "isLineTerminator c = (c \<in> set [CHR 0x0A, CHR 0x0D])"

definition toLowerChar :: "char \<Rightarrow> char" where
  "toLowerChar c =
     (case map_of (zip ''ABCDEFGHIJKLMNOPQRSTUVWXYZ'' ''abcdefghijklmnopqrstuvwxyz'') c of
        Some l \<Rightarrow> l | None \<Rightarrow> c)"

definition toUpperChar :: "char \<Rightarrow> char" where
  "toUpperChar c =
     (case map_of (zip ''abcdefghijklmnopqrstuvwxyz'' ''ABCDEFGHIJKLMNOPQRSTUVWXYZ'') c of
        Some u \<Rightarrow> u | None \<Rightarrow> c)"

definition toLowerCase :: "string \<Rightarrow> string" where
  "toLowerCase s = map toLowerChar s"

definition toUpperCase :: "string \<Rightarrow> string" where
  "toUpperCase s = map toUpperChar s"

text \<open>\<open>s.trim()\<close>: white space and line terminators are removed at both ends.\<close>

definition trim :: "string \<Rightarrow> string" where
  "trim s = rev (dropWhile isWhiteSpace (rev (dropWhile isWhiteSpace s)))"

text \<open>The literal \<open>p\<close> stands at the start of \<open>s\<close>.\<close>

fun startsWith :: "string \<Rightarrow> string \<Rightarrow> bool" where
  "startsWith s [] = True"
| "startsWith [] (p # ps) = False"
| "startsWith (c # cs) (p # ps) = (c = p \<and> startsWith cs ps)"

text \<open>\<open>s.includes(t)\<close>: \<open>t\<close> occurs in \<open>s\<close> as a substring.\<close>

fun includesStr :: "string \<Rightarrow> string \<Rightarrow> bool" where
  "includesStr [] t = (t = [])"
| "includesStr (c # cs) t = (startsWith (c # cs) t \<or> includesStr cs t)"

text \<open>
  The first occurrence of \<open>pat\<close> in \<open>s\<close>: the text before it and the text after it.
\<close>

fun splitAtFirst :: "string \<Rightarrow> string \<Rightarrow> (string \<times> string) option" where
  "splitAtFirst pat [] = (if pat = [] then Some ([], []) else None)"
| "splitAtFirst pat (c # cs) =
     (if startsWith (c # cs) pat then Some ([], drop (length pat) (c # cs))
      else map_option (\<lambda>(front, back). (c # front, back)) (splitAtFirst pat cs))"

text \<open>
  The replacement text of \<open>String.prototype.replace\<close> is a template: \<open>$$\<close> stands for a
  dollar sign, \<open>$&\<close> for the matched text, \<open>$`\<close> for the text before the match and \<open>$'\<close>
  for the text after it. A string pattern has no capture groups, so a dollar sign before
  any other character stands for itself.
\<close>

fun getSubstitution :: "string \<Rightarrow> string \<Rightarrow> string \<Rightarrow> string \<Rightarrow> string" where
  "getSubstitution matched front back [] = []"
| "getSubstitution matched front back [c] = [c]"
| "getSubstitution matched front back (c # d # r) =
     (if c = CHR 0x24 \<and> d = CHR 0x24 then CHR 0x24 # getSubstitution matched front back r
      else if c = CHR 0x24 \<and> d = CHR 0x26 then matched @ getSubstitution matched front back r
      else if c = CHR 0x24 \<and> d = CHR 0x60 then front @ getSubstitution matched front back r
      else if c = CHR 0x24 \<and> d = CHR 0x27 then back @ getSubstitution matched front back r
      else c # getSubstitution matched front back (d # r))"

text \<open>
  \<open>s.replace(pat, repl)\<close> with a string pattern: the first occurrence only, and \<open>s\<close>
  itself when there is none.
\<close>

definition replaceStr :: "string \<Rightarrow> string \<Rightarrow> string \<Rightarrow> string" where
  "replaceStr s pat repl =
     (case splitAtFirst pat s of
        None \<Rightarrow> s
      | Some (front, back) \<Rightarrow> front @ getSubstitution pat front back repl @ back)"

section \<open>The three regular expressions of the rewriter\<close>

text \<open>
  \<open>String.prototype.match\<close> with a regular expression that has no \<open>g\<close> flag returns the
  leftmost match: the start positions are tried from left to right, and at each one the
  backtracking matcher's first success counts.
\<close>

fun searchFrom :: "(string \<Rightarrow> 'a option) \<Rightarrow> string \<Rightarrow> 'a option" where
  "searchFrom m [] = m []"
| "searchFrom m (c # cs) = (case m (c # cs) of Some r \<Rightarrow> Some r | None \<Rightarrow> searchFrom m cs)"

text \<open>
  A greedy run of white space followed by the rest \<open>cont\<close> of the pattern: the longest
  run is tried first, then one character less, down to one character (\<open>\s+\<close>) or none
  (\<open>\s*\<close>). \<open>cont\<close> receives the run that was consumed and the text after it.
\<close>

fun wsTry :: "(string \<Rightarrow> string \<Rightarrow> 'a option) \<Rightarrow> string \<Rightarrow> nat \<Rightarrow> 'a option" where
  "wsTry cont r 0 = None"
| "wsTry cont r (Suc j) =
     (case cont (take (Suc j) r) (drop (Suc j) r) of
        Some x \<Rightarrow> Some x
      | None \<Rightarrow> wsTry cont r j)"

definition wsPlus :: "(string \<Rightarrow> string \<Rightarrow> 'a option) \<Rightarrow> string \<Rightarrow> 'a option" where
  "wsPlus cont r = wsTry cont r (length (takeWhile isWhiteSpace r))"

definition wsStar :: "(string \<Rightarrow> string \<Rightarrow> 'a option) \<Rightarrow> string \<Rightarrow> 'a option" where
  "wsStar cont r = (case wsPlus cont r of Some x \<Rightarrow> Some x | None \<Rightarrow> cont [] r)"

subsection \<open>\<open>/order by\s+(.*?)(asc|desc|$)/\<close>\<close>

text \<open>
  The lazy group \<open>(.*?)\<close> before \<open>(asc|desc|$)\<close>: the shortest run of characters other
  than line terminators after which \<open>asc\<close>, \<open>desc\<close> or the end of the text stands. The
  result is the text of the group.
\<close>

fun lazyToAscDesc :: "string \<Rightarrow> string option" where
  "lazyToAscDesc [] = Some []"
| "lazyToAscDesc (c # cs) =
     (if startsWith (c # cs) ''asc'' \<or> startsWith (c # cs) ''desc'' then Some []
      else if isLineTerminator c then None
      else map_option ((#) c) (lazyToAscDesc cs))"

definition orderByAt :: "string \<Rightarrow> string option" where
  "orderByAt s =
     (if startsWith s ''order by'' then wsPlus (\<lambda>ws r. lazyToAscDesc r) (drop 8 s) else None)"

text \<open>\<open>lowerQuery.match(/order by\s+(.*?)(asc|desc|$)/)\<close>: group 1 of the match, if any.\<close>

definition orderByMatch :: "string \<Rightarrow> string option" where
  "orderByMatch s = searchFrom orderByAt s"

subsection \<open>\<open>/(sum|count|avg|min|max)\s*\(/\<close>\<close>

definition aggregateNames :: "string list" where
  "aggregateNames = [''sum'', ''count'', ''avg'', ''min'', ''max'']"

text \<open>The alternatives are tried in the order they are written.\<close>

fun aggregateAlt :: "string list \<Rightarrow> string \<Rightarrow> (string \<times> string) option" where
  "aggregateAlt [] s = None"
| "aggregateAlt (name # names) s =
     (case (if startsWith s name
            then wsStar (\<lambda>ws r. if startsWith r ''('' then Some (name @ ws @ ''('', name) else None)
                   (drop (length name) s)
            else None) of
        Some m \<Rightarrow> Some m
      | None \<Rightarrow> aggregateAlt names s)"

text \<open>
  \<open>orderByClause.match(/(sum|count|avg|min|max)\s*\(/)\<close>: the whole match (element 0) and
  group 1 (the function name), if any.
\<close>

definition aggregateMatch :: "string \<Rightarrow> (string \<times> string) option" where
  "aggregateMatch s = searchFrom (aggregateAlt aggregateNames) s"

subsection \<open>\<open>/select\s+(.*?)\s+from/\<close>\<close>

definition wsFromAt :: "string \<Rightarrow> bool" where
  "wsFromAt s = (wsPlus (\<lambda>ws r. if startsWith r ''from'' then Some () else None) s \<noteq> None)"

fun lazyToWsFrom :: "string \<Rightarrow> string option" where
  "lazyToWsFrom [] = None"
| "lazyToWsFrom (c # cs) =
     (if wsFromAt (c # cs) then Some []
      else if isLineTerminator c then None
      else map_option ((#) c) (lazyToWsFrom cs))"

definition selectAt :: "string \<Rightarrow> string option" where
  "selectAt s =
     (if startsWith s ''select'' then wsPlus (\<lambda>ws r. lazyToWsFrom r) (drop 6 s) else None)"

text \<open>\<open>lowerQuery.match(/select\s+(.*?)\s+from/)\<close>: group 1 of the match, if any.\<close>

definition selectMatch :: "string \<Rightarrow> string option" where
  "selectMatch s = searchFrom selectAt s"

section \<open>The chart-augmentation rewriter\<close>

text \<open>
  \<open>modifySqlQueryForCharting\<close> of \<open>index.js\<close>. An empty group 1 is falsy in JavaScript, so
  the statement is returned as it is when the ordering expression or the projection list
  is empty. The text appended to the projection list is element 0 of the aggregate match,
  which ends at the opening parenthesis.
\<close>

definition modifySqlQueryForCharting :: "string \<Rightarrow> string" where
  "modifySqlQueryForCharting query =
     (let lowerQuery = toLowerCase query in
      case orderByMatch lowerQuery of
        None \<Rightarrow> query
      | Some group1 \<Rightarrow>
          if group1 = [] then query
          else
            (let orderByClause = trim group1 in
             case aggregateMatch orderByClause of
               None \<Rightarrow> query
             | Some (aggregateFunction, name) \<Rightarrow>
                 (case selectMatch lowerQuery of
                    None \<Rightarrow> query
                  | Some selectClause \<Rightarrow>
                      if selectClause = [] then query
                      else if includesStr selectClause aggregateFunction then query
                      else
                        (let alias = name @ ''_value'';
                             modifiedSelect =
                               selectClause @ '', '' @ aggregateFunction @ '' AS '' @ alias
                         in replaceStr query selectClause modifiedSelect))))"

section \<open>JavaScript values\<close>

text \<open>
  The values the server handles: the database driver's rows and what the program builds of
  them. A number is passed through and never computed with, so it is a real number here.
  An object is the list of its own enumerable properties in the order JavaScript
  enumerates them, with distinct keys; no key names an inherited property (such as
  \<open>constructor\<close>), so reading a key that is not in the list gives \<open>undefined\<close>. Arrays have
  no holes.
\<close>

datatype jsval =
    JUndefined
  | JNull
  | JBoolean bool
  | JNumber real
  | JString string
  | JBigInt int
  | JArray "jsval list"
  | JObject "(string \<times> jsval) list"

datatype error = Error (message: string) | TypeError (message: string)

fun typeof :: "jsval \<Rightarrow> string" where
  "typeof JUndefined = ''undefined''"
| "typeof JNull = ''object''"
| "typeof (JBoolean b) = ''boolean''"
| "typeof (JNumber x) = ''number''"
| "typeof (JString s) = ''string''"
| "typeof (JBigInt i) = ''bigint''"
| "typeof (JArray xs) = ''object''"
| "typeof (JObject kvs) = ''object''"

text \<open>Decimal numerals: array indices as property keys, and \<open>BigInt.prototype.toString\<close>.\<close>

definition digitChar :: "nat \<Rightarrow> char" where
  "digitChar d = ''0123456789'' ! d"

fun natToString :: "nat \<Rightarrow> string" where
  "natToString n =
     (if n < 10 then [digitChar n] else natToString (n div 10) @ [digitChar (n mod 10)])"

definition bigIntToString :: "int \<Rightarrow> string" where
  "bigIntToString i = (if i < 0 then CHR ''-'' # natToString (nat (- i)) else natToString (nat i))"

section \<open>Wide-integer normalization\<close>

text \<open>
  \<open>convertBigIntToString\<close> of \<open>index.js\<close>. A value that is not an object (a bigint among
  them) is returned as it is; an array is mapped element by element; of an object, each
  own property is copied, a bigint value as its decimal string and any other value
  through the recursive call.
\<close>

fun convertBigIntToString :: "jsval \<Rightarrow> jsval" where
  "convertBigIntToString (JArray xs) = JArray (map convertBigIntToString xs)"
| "convertBigIntToString (JObject kvs) =
     JObject (map (\<lambda>(key, v).
        (key, case v of JBigInt i \<Rightarrow> JString (bigIntToString i) | _ \<Rightarrow> convertBigIntToString v)) kvs)"
| "convertBigIntToString v = v"

text \<open>A bigint occurs somewhere in the value: \<open>JSON.stringify\<close> throws on such a value.\<close>

fun hasBigInt :: "jsval \<Rightarrow> bool" where
  "hasBigInt (JBigInt i) = True"
| "hasBigInt (JArray xs) = list_ex hasBigInt xs"
| "hasBigInt (JObject kvs) = list_ex (\<lambda>(key, v). hasBigInt v) kvs"
| "hasBigInt v = False"

section \<open>The chart data transformer\<close>

text \<open>
  \<open>Object.keys(v)\<close>: a type error on \<open>undefined\<close> and \<open>null\<close>, the indices of an array or a
  string, the keys of an object, and nothing for the other primitive values.
\<close>

definition indexKeys :: "nat \<Rightarrow> string list" where
  "indexKeys n = map natToString [0..<n]"

fun objectKeys :: "jsval \<Rightarrow> error + string list" where
  "objectKeys JUndefined = Inl (TypeError ''Cannot convert undefined or null to object'')"
| "objectKeys JNull = Inl (TypeError ''Cannot convert undefined or null to object'')"
| "objectKeys (JString s) = Inr (indexKeys (length s))"
| "objectKeys (JArray xs) = Inr (indexKeys (length xs))"
| "objectKeys (JObject kvs) = Inr (map fst kvs)"
| "objectKeys v = Inr []"

text \<open>
  \<open>v[k]\<close> for a value \<open>v\<close> other than \<open>undefined\<close> and \<open>null\<close>: own properties only (see
  above).
\<close>

fun readProp :: "jsval \<Rightarrow> string \<Rightarrow> jsval" where
  "readProp (JObject kvs) k = (case map_of kvs k of Some v \<Rightarrow> v | None \<Rightarrow> JUndefined)"
| "readProp (JArray xs) k =
     (if k = ''length'' then JNumber (of_nat (length xs))
      else case find (\<lambda>i. natToString i = k) [0..<length xs] of
             Some i \<Rightarrow> xs ! i
           | None \<Rightarrow> JUndefined)"
| "readProp (JString s) k =
     (if k = ''length'' then JNumber (of_nat (length s))
      else case find (\<lambda>i. natToString i = k) [0..<length s] of
             Some i \<Rightarrow> JString [s ! i]
           | None \<Rightarrow> JUndefined)"
| "readProp v k = JUndefined"

text \<open>
  \<open>v[k]\<close> in general: reading a property of \<open>undefined\<close> or \<open>null\<close> throws. (The text
  of this message is the engine's; the program only logs it.)
\<close>

definition getProp :: "jsval \<Rightarrow> string \<Rightarrow> error + jsval" where
  "getProp v k =
     (if v = JUndefined \<or> v = JNull then Inl (TypeError ''Cannot read properties of undefined or null'')
      else Inr (readProp v k))"

text \<open>\<open>data.map(row => row[k])\<close>: the first row that throws ends the map.\<close>

fun mapProp :: "jsval list \<Rightarrow> string \<Rightarrow> error + jsval list" where
  "mapProp [] k = Inr []"
| "mapProp (row # rows) k =
     (case getProp row k of
        Inl e \<Rightarrow> Inl e
      | Inr v \<Rightarrow> (case mapProp rows k of Inl e \<Rightarrow> Inl e | Inr vs \<Rightarrow> Inr (v # vs)))"

record dataset =
  label :: string
  data :: "jsval list"
  backgroundColor :: string
  borderColor :: string
  borderWidth :: real

record chartData =
  type :: string
  labels :: "jsval list"
  datasets :: "dataset list"

text \<open>
  One round of the loop over the column names: the \<open>if\<close> and the \<open>else if\<close> of the source.
  \<open>null\<close> for a column that is not assigned is \<open>None\<close>.
\<close>

definition classifyStep ::
  "jsval \<Rightarrow> string \<Rightarrow> string option \<times> string option \<Rightarrow> string option \<times> string option" where
  "classifyStep sampleValue colName cols =
     (case cols of (labelColumn, valueColumn) \<Rightarrow>
        if typeof sampleValue = ''string'' \<and> labelColumn = None then (Some colName, valueColumn)
        else if typeof sampleValue = ''number'' \<and> valueColumn = None then (labelColumn, Some colName)
        else (labelColumn, valueColumn))"

text \<open>The loop, with its \<open>break\<close> once both columns are assigned.\<close>

fun classify ::
  "jsval \<Rightarrow> string list \<Rightarrow> string option \<times> string option \<Rightarrow> string option \<times> string option" where
  "classify firstRow [] cols = cols"
| "classify firstRow (colName # rest) cols =
     (let cols' = classifyStep (readProp firstRow colName) colName cols
      in if fst cols' \<noteq> None \<and> snd cols' \<noteq> None then cols' else classify firstRow rest cols')"

text \<open>The fallback to the first two columns, each for the role that is still unassigned.\<close>

definition fallbackColumns ::
  "string list \<Rightarrow> string option \<times> string option \<Rightarrow> string option \<times> string option" where
  "fallbackColumns columnNames cols =
     (case cols of (labelColumn, valueColumn) \<Rightarrow>
        (if labelColumn = None \<and> length columnNames > 0 then Some (columnNames ! 0) else labelColumn,
         if valueColumn = None \<and> length columnNames > 1 then Some (columnNames ! 1) else valueColumn))"

text \<open>
  \<open>transformDataForChart\<close> of \<open>index.js\<close>: \<open>Inr None\<close> is the return value \<open>null\<close>, \<open>Inl\<close> an
  exception that leaves the function.
\<close>

definition transformDataForChart :: "jsval \<Rightarrow> error + chartData option" where
  "transformDataForChart d =
     (case d of
        JArray [] \<Rightarrow> Inr None
      | JArray (firstRow # others) \<Rightarrow>
          (case objectKeys firstRow of
             Inl e \<Rightarrow> Inl e
           | Inr columnNames \<Rightarrow>
               (case fallbackColumns columnNames (classify firstRow columnNames (None, None)) of
                  (Some labelColumn, Some valueColumn) \<Rightarrow>
                    (case mapProp (firstRow # others) labelColumn of
                       Inl e \<Rightarrow> Inl e
                     | Inr labelValues \<Rightarrow>
                         (case mapProp (firstRow # others) valueColumn of
                            Inl e \<Rightarrow> Inl e
                          | Inr dataValues \<Rightarrow>
                              Inr (Some \<lparr>type = ''bar'', labels = labelValues,
                                datasets = [\<lparr>label = (if valueColumn = [] then ''Value'' else valueColumn),
                                  data = dataValues,
                                  backgroundColor = ''rgba(75, 192, 192, 0.6)'',
                                  borderColor = ''rgba(75, 192, 192, 1)'',
                                  borderWidth = 1\<rparr>]\<rparr>)))
                | _ \<Rightarrow> Inr None))
      | _ \<Rightarrow> Inr None)"

section \<open>The collaborators of one request\<close>

text \<open>
  What the database and the language model answer during one request. The catalog query
  and the execution of a statement either fail with an error or return their rows. The
  language model is called from three places, at most once from each during one request,
  so its behaviour is one answer per place as a function of the prompt: the text of the
  response, or the failure of \<open>generateContent\<close>, \<open>response\<close> or \<open>text()\<close>.
  \<open>JSON.stringify(result, null, 2)\<close> is a parameter as well: its text goes into a prompt
  only, and its one failure, on a bigint, is part of the handler below.
\<close>

datatype stage =
  SchemaFetch | SqlGeneration | SqlExecution | Summarization | ChartDecision | ChartTransform

record catalogRow =
  TABLE_NAME :: string
  COLUMN_NAME :: string
  DATA_TYPE :: string
  COLUMN_TYPE :: string

record columnInfo =
  column_name :: string
  data_type :: string
  column_type :: string

record env =
  queryCatalog :: "error + catalogRow list"
  generateContent :: "stage \<Rightarrow> string \<Rightarrow> error + string"
  queryRawUnsafe :: "string \<Rightarrow> error + jsval"
  jsonStringify :: "jsval \<Rightarrow> string"

section \<open>Schema introspection and SQL generation\<close>

text \<open>
  The object \<open>tables\<close> of \<open>getTableAndColumnNames\<close> as the list of its entries: a row of
  a new table adds an entry at the end, a row of a known table extends that table's list.
  This is what the object does for table names that are neither canonical array indices,
  which JavaScript lists first and in numeric order, nor names of properties inherited
  from \<open>Object.prototype\<close>, for which the look-up finds a value before any row is stored.
\<close>

fun pushColumn :: "string \<Rightarrow> columnInfo \<Rightarrow> (string \<times> columnInfo list) list \<Rightarrow>
    (string \<times> columnInfo list) list" where
  "pushColumn t c [] = [(t, [c])]"
| "pushColumn t c ((t', cs) # tables) =
     (if t' = t then (t', cs @ [c]) # tables else (t', cs) # pushColumn t c tables)"

fun groupColumns :: "catalogRow list \<Rightarrow> (string \<times> columnInfo list) list \<Rightarrow>
    (string \<times> columnInfo list) list" where
  "groupColumns [] tables = tables"
| "groupColumns (row # rows) tables =
     groupColumns rows
       (pushColumn (TABLE_NAME row)
          \<lparr>column_name = COLUMN_NAME row, data_type = DATA_TYPE row, column_type = COLUMN_TYPE row\<rparr>
          tables)"

definition getTableAndColumnNames :: "env \<Rightarrow> error + (string \<times> columnInfo list) list" where
  "getTableAndColumnNames env =
     (case queryCatalog env of Inl e \<Rightarrow> Inl e | Inr rows \<Rightarrow> Inr (groupColumns rows []))"

text \<open>\<open>xs.join(sep)\<close>\<close>

fun join :: "string \<Rightarrow> string list \<Rightarrow> string" where
  "join sep [] = []"
| "join sep [x] = x"
| "join sep (x # y # zs) = x @ sep @ join sep (y # zs)"

definition dbSchemaText :: "(string \<times> columnInfo list) list \<Rightarrow> string" where
  "dbSchemaText dbSchemaObj =
     join [CHR 0x0A]
       (map (\<lambda>(table, columns).
          ''- '' @ table @ '': '' @
          join '', '' (map (\<lambda>col. column_name col @ '' ('' @ data_type col @ '')'') columns))
        dbSchemaObj)"

definition sqlPrompt :: "string \<Rightarrow> string \<Rightarrow> string" where
  "sqlPrompt userQuery dbSchema =
     ''Given the following database schema for the '' @ [CHR 0x27] @ ''classicmodels'' @
     [CHR 0x27] @ '' database:'' @ [CHR 0x0A] @ dbSchema @ [CHR 0x0A, CHR 0x0A] @
     ''Translate the following natural language query into a SQL query for MySQL. '' @
     ''Only return the SQL query and nothing else.'' @ [CHR 0x0A, CHR 0x0A] @
     ''When the query asks for a comparison, ranking, or values associated with '' @
     ''entities (e.g., sales by customer, products by category), ensure the SELECT '' @
     ''clause includes both the entity'' @ [CHR 0x27] @
     ''s identifying column(s) and the calculated value(s).'' @ [CHR 0x0A, CHR 0x0A] @
     ''Natural language query: '' @ [CHR 0x22] @ userQuery @
     [CHR 0x22, CHR 0x0A, CHR 0x0A] @ ''SQL query:''"

text \<open>\<open>s.replace(/pat/g, '')\<close> for a literal pattern: every occurrence, from left to right.\<close>

function removeAll :: "string \<Rightarrow> string \<Rightarrow> string" where
  "removeAll pat [] = []"
| "removeAll pat (c # cs) =
     (if pat \<noteq> [] \<and> startsWith (c # cs) pat then removeAll pat (drop (length pat) (c # cs))
      else c # removeAll pat cs)"
  by pat_completeness auto
termination
  by (relation "measure (\<lambda>(pat, s). length s)") auto

definition codeFence :: string where
  "codeFence = [CHR 0x60, CHR 0x60, CHR 0x60]"

text \<open>
  \<open>getSqlQueryFromGemini\<close>: a failure of the model is replaced by the function's own
  error.
\<close>

definition getSqlQueryFromGemini :: "env \<Rightarrow> string \<Rightarrow> string \<Rightarrow> error + string" where
  "getSqlQueryFromGemini env userQuery dbSchema =
     (case generateContent env SqlGeneration (sqlPrompt userQuery dbSchema) of
        Inl e \<Rightarrow> Inl (Error ''Failed to generate SQL query.'')
      | Inr text \<Rightarrow> Inr (trim (removeAll codeFence (removeAll (codeFence @ ''sql'') text))))"

section \<open>The chart decision\<close>

definition chartPrompt :: "string \<Rightarrow> string" where
  "chartPrompt userQuery =
     ''Given the user query: '' @ [CHR 0x22] @ userQuery @ [CHR 0x22] @
     '', determine if a chart visualization would be appropriate for the result. '' @
     ''Consider queries that ask for comparisons, trends, distributions, or rankings '' @
     ''as appropriate for charts. Examples of chart-appropriate queries: '' @ [CHR 0x22] @
     ''Show me the total sales by customer'' @ [CHR 0x22] @ '', '' @ [CHR 0x22] @
     ''What are the sales trends over time?'' @ [CHR 0x22] @ '', '' @ [CHR 0x22] @
     ''Show the distribution of products by category'' @ [CHR 0x22] @ '', '' @ [CHR 0x22] @
     ''Compare the sales performance of different employees'' @ [CHR 0x22] @ '', '' @
     [CHR 0x22] @ ''What are the top 10 selling products?'' @ [CHR 0x22] @
     ''. Respond with '' @ [CHR 0x22] @ ''YES'' @ [CHR 0x22] @
     '' if a chart is appropriate, and '' @ [CHR 0x22] @ ''NO'' @ [CHR 0x22] @
     '' otherwise. Only respond with '' @ [CHR 0x22] @ ''YES'' @ [CHR 0x22] @ '' or '' @
     [CHR 0x22] @ ''NO'' @ [CHR 0x22] @ ''.''"

text \<open>\<open>shouldGenerateChart\<close>: any failure of the model call is caught and answered \<open>false\<close>.\<close>

definition shouldGenerateChart :: "env \<Rightarrow> string \<Rightarrow> bool" where
  "shouldGenerateChart env userQuery =
     (case generateContent env ChartDecision (chartPrompt userQuery) of
        Inl e \<Rightarrow> False
      | Inr text \<Rightarrow> toUpperCase (trim text) = ''YES'')"

definition chartKeywords :: "string list" where
  "chartKeywords = [''chart'', ''plot'', ''graph'', ''visualize'']"

definition containsChartKeyword :: "string \<Rightarrow> bool" where
  "containsChartKeyword userQuery =
     list_ex (\<lambda>keyword. includesStr (toLowerCase userQuery) keyword) chartKeywords"

text \<open>
  The decision \<open>generateChart\<close> of the handler, with the stages it invokes: the model is
  asked only when no keyword is found.
\<close>

definition chartDecision :: "env \<Rightarrow> string \<Rightarrow> stage list \<times> bool" where
  "chartDecision env userQuery =
     (if containsChartKeyword userQuery then ([], True)
      else ([ChartDecision], shouldGenerateChart env userQuery))"

section \<open>The handler of \<open>POST /api/query\<close>\<close>

definition explanationPrompt :: "string \<Rightarrow> string \<Rightarrow> string \<Rightarrow> string" where
  "explanationPrompt userQuery sqlQuery resultJson =
     [CHR 0x0A] @
     ''You are an assistant that receives SQL query results as JSON. Your task is to '' @
     ''produce a clear, natural language summary for the end user based on their '' @
     ''question.'' @ [CHR 0x0A, CHR 0x0A] @ ''User question: '' @ [CHR 0x22] @ userQuery @
     [CHR 0x22, CHR 0x0A, CHR 0x0A] @ ''SQL query: '' @ [CHR 0x60] @ sqlQuery @
     [CHR 0x60, CHR 0x0A, CHR 0x0A] @ ''SQL result (in JSON format): '' @
     [CHR 0x0A, CHR 0x60, CHR 0x60, CHR 0x60] @ ''json'' @ [CHR 0x0A] @ resultJson @
     [CHR 0x0A, CHR 0x60, CHR 0x60, CHR 0x60, CHR 0x0A, CHR 0x0A] @
     ''Please write a concise and natural answer listing the relevant data clearly '' @
     ''without repeating JSON keys.  '' @ [CHR 0x0A] @
     ''- If the result contains customer names, list them separated by commas.  '' @
     [CHR 0x0A] @ ''- If the result contains multiple rows, you can summarize as '' @
     [CHR 0x22] @ ''There are X entries: ...'' @ [CHR 0x22] @ '' or list items.  '' @
     [CHR 0x0A] @ ''- Do not include any code blocks or raw JSON in your response.  '' @
     [CHR 0x0A] @ ''- Make it friendly and easy to read.'' @ [CHR 0x0A]"

text \<open>
  The two shapes of a response body: \<open>{error}\<close>, and \<open>{query, result, summary, chart}\<close> with
  the fields in this order.
\<close>

datatype body =
    ErrorBody string
  | Payload string jsval string "chartData option"

record response =
  status :: nat
  body :: body

text \<open>
  The first part of the \<open>try\<close> block, up to the summary: the stages that were invoked,
  in order, and either the exception that left the block or the (rewritten) statement,
  the normalized result and the text of the summary. The template of the summary prompt
  calls \<open>JSON.stringify\<close> on the result, which throws on a bigint before the model is
  called.
\<close>

definition mandatoryStages :: "env \<Rightarrow> string \<Rightarrow> stage list \<times> (error + string \<times> jsval \<times> string)" where
  "mandatoryStages env userQuery =
     (case getTableAndColumnNames env of
        Inl e \<Rightarrow> ([SchemaFetch], Inl e)
      | Inr dbSchemaObj \<Rightarrow>
          (case getSqlQueryFromGemini env userQuery (dbSchemaText dbSchemaObj) of
             Inl e \<Rightarrow> ([SchemaFetch, SqlGeneration], Inl e)
           | Inr generated \<Rightarrow>
               (let sqlQuery = modifySqlQueryForCharting generated in
                case queryRawUnsafe env sqlQuery of
                  Inl e \<Rightarrow> ([SchemaFetch, SqlGeneration, SqlExecution], Inl e)
                | Inr raw \<Rightarrow>
                    (let result = convertBigIntToString raw in
                     if hasBigInt result
                     then ([SchemaFetch, SqlGeneration, SqlExecution],
                           Inl (TypeError ''Do not know how to serialize a BigInt''))
                     else
                       (case generateContent env Summarization
                               (explanationPrompt userQuery sqlQuery (jsonStringify env result)) of
                          Inl e \<Rightarrow>
                            ([SchemaFetch, SqlGeneration, SqlExecution, Summarization], Inl e)
                        | Inr explanationText \<Rightarrow>
                            ([SchemaFetch, SqlGeneration, SqlExecution, Summarization],
                             Inr (sqlQuery, result, explanationText)))))))"

text \<open>
  The whole \<open>try\<close> block: after the summary, the chart decision and, when it says yes, the
  chart transform, whose exception is caught where it is called and leaves \<open>chartData\<close> at
  \<open>null\<close>. The result is the exception that left the block or the object passed to
  \<open>res.json\<close>.
\<close>

definition pipeline :: "env \<Rightarrow> string \<Rightarrow> stage list \<times> (error + body)" where
  "pipeline env userQuery =
     (case mandatoryStages env userQuery of
        (trace, Inl e) \<Rightarrow> (trace, Inl e)
      | (trace, Inr (sqlQuery, result, explanationText)) \<Rightarrow>
          (case chartDecision env userQuery of
             (asked, generateChart) \<Rightarrow>
               (trace @ asked @ (if generateChart then [ChartTransform] else []),
                Inr (Payload sqlQuery result (trim explanationText)
                   (if generateChart
                    then (case transformDataForChart result of
                            Inl e \<Rightarrow> None
                          | Inr chartData \<Rightarrow> chartData)
                    else None)))))"

text \<open>The \<open>catch\<close> block: \<open>error.message || 'Failed to process query'\<close> under status 500.\<close>

definition errorResponse :: "error \<Rightarrow> response" where
  "errorResponse e =
     \<lparr>status = 500,
      body = ErrorBody (if message e = [] then ''Failed to process query'' else message e)\<rparr>"

text \<open>
  The handler: \<open>req.body.query\<close> is absent (\<open>None\<close>) or a string. It returns the stages
  that were invoked and the response.
\<close>

definition postApiQuery :: "env \<Rightarrow> string option \<Rightarrow> stage list \<times> response" where
  "postApiQuery env bodyQuery =
     (case bodyQuery of
        None \<Rightarrow> ([], \<lparr>status = 400, body = ErrorBody ''Query is required''\<rparr>)
      | Some userQuery \<Rightarrow>
          if userQuery = [] then ([], \<lparr>status = 400, body = ErrorBody ''Query is required''\<rparr>)
          else
            (case pipeline env userQuery of
               (trace, Inl e) \<Rightarrow> (trace, errorResponse e)
             | (trace, Inr payload) \<Rightarrow> (trace, \<lparr>status = 200, body = payload\<rparr>)))"

section \<open>The column classification in the words of the specification\<close>

text \<open>
  The specification describes the classification by its result: the first key of the
  first row whose value has the wanted type, then the fallback to the first declared key
  for the label and to the second for the value. These definitions follow its words;
  the theorems below compare them with the loop of the source.
\<close>

definition firstKeyWithType :: "string \<Rightarrow> (string \<times> jsval) list \<Rightarrow> string option" where
  "firstKeyWithType t row = find (\<lambda>k. typeof (readProp (JObject row) k) = t) (map fst row)"

definition specLabelColumn :: "(string \<times> jsval) list \<Rightarrow> string option" where
  "specLabelColumn row =
     (case firstKeyWithType ''string'' row of
        Some k \<Rightarrow> Some k
      | None \<Rightarrow> (case map fst row of [] \<Rightarrow> None | k1 # ks \<Rightarrow> Some k1))"

definition specValueColumn :: "(string \<times> jsval) list \<Rightarrow> string option" where
  "specValueColumn row =
     (case firstKeyWithType ''number'' row of
        Some k \<Rightarrow> Some k
      | None \<Rightarrow> (case map fst row of k1 # k2 # ks \<Rightarrow> Some k2 | _ \<Rightarrow> None))"

text \<open>
  The series for a label column and a value column: the two columns read across all rows,
  one dataset, the fixed style and the kind \<open>bar\<close>.
\<close>

definition barChart :: "string \<Rightarrow> string \<Rightarrow> jsval list \<Rightarrow> chartData" where
  "barChart labelColumn valueColumn rows =
     \<lparr>type = ''bar'', labels = map (\<lambda>r. readProp r labelColumn) rows,
      datasets = [\<lparr>label = (if valueColumn = [] then ''Value'' else valueColumn),
        data = map (\<lambda>r. readProp r valueColumn) rows,
        backgroundColor = ''rgba(75, 192, 192, 0.6)'',
        borderColor = ''rgba(75, 192, 192, 1)'', borderWidth = 1\<rparr>]\<rparr>"

section \<open>The conditions of the rewriter in the words of the specification\<close>

text \<open>
  An aggregate call stands at the start of \<open>s\<close>: one of the names sum, count, avg, min, max,
  then white space or none, then an opening parenthesis. \<open>hasAggregateCall\<close>: such a call
  stands somewhere in the text.
\<close>

definition aggregateCallAt :: "string \<Rightarrow> bool" where
  "aggregateCallAt s =
     list_ex (\<lambda>name. startsWith s name \<and>
                startsWith (dropWhile isWhiteSpace (drop (length name) s)) ''('')
       aggregateNames"

fun hasAggregateCall :: "string \<Rightarrow> bool" where
  "hasAggregateCall [] = False"
| "hasAggregateCall (c # cs) = (aggregateCallAt (c # cs) \<or> hasAggregateCall cs)"

text \<open>
  The narrower reading, with no white space allowed: one of the names immediately followed
  by an opening parenthesis occurs in the text.
\<close>

definition hasAggregateParen :: "string \<Rightarrow> bool" where
  "hasAggregateParen e = list_ex (\<lambda>name. includesStr e (name @ ''('')) aggregateNames"

text \<open>
  The three conditions on a statement \<open>q\<close>, each on the ordering expression that the
  pattern extracts from the lowercased statement: it holds no aggregate call (trimmed, as
  the source trims it); it holds no aggregate name immediately followed by a parenthesis;
  the projection list between SELECT and FROM contains the text of the aggregate match.
\<close>

definition noAggregateInOrderBy :: "string \<Rightarrow> bool" where
  "noAggregateInOrderBy q =
     (case orderByMatch (toLowerCase q) of
        None \<Rightarrow> False
      | Some e \<Rightarrow> \<not> hasAggregateCall (trim e))"

definition noAggregateParenInOrderBy :: "string \<Rightarrow> bool" where
  "noAggregateParenInOrderBy q =
     (case orderByMatch (toLowerCase q) of
        None \<Rightarrow> False
      | Some e \<Rightarrow> \<not> hasAggregateParen e)"

definition alreadyProjected :: "string \<Rightarrow> bool" where
  "alreadyProjected q =
     (case orderByMatch (toLowerCase q) of
        None \<Rightarrow> False
      | Some e \<Rightarrow>
          (case aggregateMatch (trim e) of
             None \<Rightarrow> False
           | Some (aggregateFunction, name) \<Rightarrow>
               (case selectMatch (toLowerCase q) of
                  None \<Rightarrow> False
                | Some selectClause \<Rightarrow> includesStr selectClause aggregateFunction)))"

section \<open>Occurrences of a text\<close>

text \<open>
  The number of positions of \<open>s\<close> at which \<open>t\<close> stands. \<open>String.prototype.replace\<close> with a
  string pattern replaces at the first of them.
\<close>

fun occurrences :: "string \<Rightarrow> string \<Rightarrow> nat" where
  "occurrences [] t = (if t = [] then 1 else 0)"
| "occurrences (c # cs) t = (if startsWith (c # cs) t then 1 else 0) + occurrences cs t"

section \<open>The keyword rule in the words of the specification\<close>

text \<open>
  The question contains one of the keywords chart, plot, graph, visualize as a substring,
  whatever the case of its letters.
\<close>

definition mentionsChartKeyword :: "string \<Rightarrow> bool" where
  "mentionsChartKeyword question =
     (includesStr (toLowerCase question) ''chart'' \<or> includesStr (toLowerCase question) ''plot'' \<or>
      includesStr (toLowerCase question) ''graph'' \<or> includesStr (toLowerCase question) ''visualize'')"

section \<open>Sample collaborators\<close>

text \<open>
  A catalog, a result set and a language model for the concrete instances below. The
  model wraps its SQL statement in a code fence, as the cleaning step of
  \<open>getSqlQueryFromGemini\<close> expects; its answer to the chart question, and the outcome of
  running the statement, are parameters.
\<close>

definition sampleCatalog :: "catalogRow list" where
  "sampleCatalog =
     [\<lparr>TABLE_NAME = ''sales'', COLUMN_NAME = ''customerName'', DATA_TYPE = ''varchar'',
        COLUMN_TYPE = ''varchar(50)''\<rparr>,
      \<lparr>TABLE_NAME = ''sales'', COLUMN_NAME = ''total'', DATA_TYPE = ''int'', COLUMN_TYPE = ''int''\<rparr>]"

definition sampleRows :: jsval where
  "sampleRows =
     JArray [JObject [(''customerName'', JString ''Alice''), (''total'', JNumber 500)],
             JObject [(''customerName'', JString ''Bob''), (''total'', JNumber 300)]]"

definition sampleModel :: "error + string \<Rightarrow> stage \<Rightarrow> string \<Rightarrow> error + string" where
  "sampleModel decision st prompt =
     (case st of
        SqlGeneration \<Rightarrow>
          Inr (codeFence @ ''sql'' @ [CHR 0x0A] @ ''SELECT customerName, total FROM sales'' @
               [CHR 0x0A] @ codeFence)
      | Summarization \<Rightarrow> Inr ''Alice has 500 and Bob has 300. ''
      | ChartDecision \<Rightarrow> decision
      | _ \<Rightarrow> Inl (Error []))"

definition sampleEnv :: "error + string \<Rightarrow> error + jsval \<Rightarrow> env" where
  "sampleEnv decision rows =
     \<lparr>queryCatalog = Inr sampleCatalog, generateContent = sampleModel decision,
      queryRawUnsafe = (\<lambda>sql. rows), jsonStringify = (\<lambda>v. [])\<rparr>"

section \<open>The string operations, characterised\<close>

text \<open>
  \<open>startsWith\<close> is the prefix test, \<open>includesStr\<close> the substring test, and the split of
  \<open>replaceStr\<close> cuts the text at an occurrence of the pattern; a pattern that does not
  occur leaves the text as it is.
\<close>

lemma startsWith_iff: "startsWith s p = (\<exists>rest. s = p @ rest)"
  by (induction s p rule: startsWith.induct) auto

lemma includesStr_iff: "includesStr s t = (\<exists>pre post. s = pre @ t @ post)"
proof (induction s)
  case Nil
  then show ?case by auto
next
  case (Cons c cs)
  have "(\<exists>pre post. c # cs = pre @ t @ post) =
      ((\<exists>post. c # cs = t @ post) \<or> (\<exists>pre post. cs = pre @ t @ post))"
  proof
    assume "\<exists>pre post. c # cs = pre @ t @ post"
    then obtain pre post where e: "c # cs = pre @ t @ post" by blast
    show "(\<exists>post. c # cs = t @ post) \<or> (\<exists>pre post. cs = pre @ t @ post)"
    proof (cases pre)
      case Nil
      then show ?thesis using e by auto
    next
      case (Cons d pre')
      then have "cs = pre' @ t @ post" using e by simp
      then show ?thesis by blast
    qed
  next
    assume "(\<exists>post. c # cs = t @ post) \<or> (\<exists>pre post. cs = pre @ t @ post)"
    then show "\<exists>pre post. c # cs = pre @ t @ post"
    proof
      assume "\<exists>post. c # cs = t @ post"
      then obtain post where "c # cs = [] @ t @ post" by auto
      then show ?thesis by blast
    next
      assume "\<exists>pre post. cs = pre @ t @ post"
      then obtain pre post where "cs = pre @ t @ post" by blast
      then have "c # cs = (c # pre) @ t @ post" by simp
      then show ?thesis by blast
    qed
  qed
  then show ?case using Cons by (simp add: startsWith_iff)
qed

lemma splitAtFirst_sound:
  "splitAtFirst pat s = Some (pre, post) \<Longrightarrow> s = pre @ pat @ post"
proof (induction s arbitrary: pre)
  case Nil
  then show ?case by (simp split: if_splits)
next
  case (Cons c cs)
  show ?case
  proof (cases "startsWith (c # cs) pat")
    case True
    then obtain rest where r: "c # cs = pat @ rest" using startsWith_iff by blast
    have "pre = []" "post = drop (length pat) (c # cs)" using Cons.prems True by auto
    then show ?thesis using r by (metis append_Nil append_eq_conv_conj)
  next
    case False
    then obtain f where f: "splitAtFirst pat cs = Some (f, post)" "pre = c # f"
      using Cons.prems by auto
    then show ?thesis using Cons.IH by simp
  qed
qed

lemma replaceStr_absent: "\<not> includesStr s pat \<Longrightarrow> replaceStr s pat repl = s"
proof -
  assume n: "\<not> includesStr s pat"
  have "splitAtFirst pat s = None"
  proof (cases "splitAtFirst pat s")
    case None
    then show ?thesis .
  next
    case (Some fb)
    then obtain pre post where "splitAtFirst pat s = Some (pre, post)" by (cases fb) auto
    then have "s = pre @ pat @ post" by (rule splitAtFirst_sound)
    then show ?thesis using n includesStr_iff by blast
  qed
  then show ?thesis by (simp add: replaceStr_def)
qed

section \<open>The patterns on examples\<close>

text \<open>
  The greedy white space gives characters back when the rest of the pattern needs them;
  the lazy group does not cross a line terminator, while white space does; \<open>desc\<close> ends
  the ordering expression also inside a word; a position where the pattern fails is
  passed over for a later one.
\<close>

lemma pattern_examples:
  "selectMatch ''select  from'' = Some []"
  "selectMatch ''select  from (select a from t) order by sum(x)'' = Some ''from (select a''"
  "selectMatch (''select a'' @ [CHR 0x0A] @ ''from t'') = Some ''a''"
  "selectMatch (''select a,'' @ [CHR 0x0A] @ ''b from t'') = None"
  "orderByMatch ''order by description'' = Some []"
  "orderByMatch (''order by x'' @ [CHR 0x0A] @ '' desc order by sum(y)'') = Some ''sum(y)''"
  "orderByMatch ''order by  total desc'' = Some ''total ''"
  "aggregateMatch ''x + min (y)'' = Some (''min ('', ''min'')"
  "aggregateMatch ''summary(x)'' = None"
  by code_simp+

section \<open>Wide-integer normalization: what is converted\<close>

lemma convert_spec_row:
  "convertBigIntToString (JObject [(''id'', JBigInt 9007199254740993)])
     = JObject [(''id'', JString ''9007199254740993'')]"
  by (simp add: bigIntToString_def digitChar_def)

lemma convert_array_element:
  "convertBigIntToString (JArray [JObject [(''ids'', JArray [JBigInt 9007199254740993])]])
     = JArray [JObject [(''ids'', JArray [JBigInt 9007199254740993])]]"
  by simp

text \<open>
  C7. The row \<open>{id: 9007199254740993n}\<close> is normalized to \<open>{id: "9007199254740993"}\<close>, but a
  bigint that is an element of an array is returned as it is: in the rows
  \<open>[{ids: [9007199254740993n]}]\<close> the bigint is still there after the normalization, so
  the conversion does not reach every depth.
\<close>

theorem bigint_array_element_kept:
  "convertBigIntToString (JObject [(''id'', JBigInt 9007199254740993)])
     = JObject [(''id'', JString ''9007199254740993'')]
   \<and> convertBigIntToString (JArray [JObject [(''ids'', JArray [JBigInt 9007199254740993])]])
     = JArray [JObject [(''ids'', JArray [JBigInt 9007199254740993])]]
   \<and> hasBigInt
       (convertBigIntToString (JArray [JObject [(''ids'', JArray [JBigInt 9007199254740993])]]))"
  using convert_spec_row convert_array_element by simp

section \<open>The rewriter on the statements of the specification\<close>

lemma rewrite_example_1:
  "modifySqlQueryForCharting ''SELECT name FROM customers ORDER BY SUM(amount) DESC''
     = ''SELECT name, sum( AS sum_value FROM customers ORDER BY SUM(amount) DESC''"
  by code_simp

lemma rewrite_example_2:
  "modifySqlQueryForCharting
       ''SELECT name, SUM(amount) AS total FROM customers ORDER BY SUM(amount) DESC''
     = ''SELECT name, SUM(amount) AS total FROM customers ORDER BY SUM(amount) DESC''"
  by code_simp

lemma rewrite_example_3:
  "\<not> includesStr ''SELECT name, sum( AS sum_value FROM customers ORDER BY SUM(amount) DESC''
        ''SUM(amount) AS sum_value''"
  "\<not> includesStr
        (toLowerCase ''SELECT name, sum( AS sum_value FROM customers ORDER BY SUM(amount) DESC'')
        ''sum(amount) as sum_value''"
  by code_simp+

text \<open>
  A projection list with an upper-case letter is not found by the case-sensitive
  replacement, and the statement stays as it is.
\<close>

lemma mixed_case_projection_kept:
  "modifySqlQueryForCharting ''SELECT customerName FROM customers ORDER BY SUM(amount) DESC''
     = ''SELECT customerName FROM customers ORDER BY SUM(amount) DESC''"
  by code_simp

text \<open>
  C1. For \<open>SELECT name FROM customers ORDER BY SUM(amount) DESC\<close> the rewriter appends
  \<open>sum( AS sum_value\<close> to the projection list: the appended text is the match of the
  aggregate pattern, which ends at the opening parenthesis, and not the aggregate call
  \<open>SUM(amount)\<close>. The result does not contain \<open>SUM(amount) AS sum_value\<close>, in whatever
  case of the letters. The statement that already projects the aggregate is returned
  unchanged.
\<close>

theorem rewriter_on_spec_examples:
  "modifySqlQueryForCharting ''SELECT name FROM customers ORDER BY SUM(amount) DESC''
     = ''SELECT name, sum( AS sum_value FROM customers ORDER BY SUM(amount) DESC''
   \<and> \<not> includesStr
         (modifySqlQueryForCharting ''SELECT name FROM customers ORDER BY SUM(amount) DESC'')
         ''SUM(amount) AS sum_value''
   \<and> \<not> includesStr
         (toLowerCase
            (modifySqlQueryForCharting ''SELECT name FROM customers ORDER BY SUM(amount) DESC''))
         ''sum(amount) as sum_value''
   \<and> modifySqlQueryForCharting
       ''SELECT name, SUM(amount) AS total FROM customers ORDER BY SUM(amount) DESC''
     = ''SELECT name, SUM(amount) AS total FROM customers ORDER BY SUM(amount) DESC''"
  using rewrite_example_1 rewrite_example_2 rewrite_example_3 by simp

section \<open>When the rewriter returns the statement unchanged\<close>

text \<open>A match of a pattern that starts with a literal shows that the literal occurs.\<close>

lemma searchFrom_includes:
  assumes "\<And>t. m t \<noteq> None \<Longrightarrow> startsWith t p"
  shows "searchFrom m s \<noteq> None \<Longrightarrow> includesStr s p"
proof (induction s)
  case Nil
  then have "startsWith [] p" using assms by simp
  then show ?case by (cases p) simp_all
next
  case (Cons c cs)
  then show ?case using assms by (cases "m (c # cs)") auto
qed

lemma orderByMatch_includes:
  "orderByMatch s = Some e \<Longrightarrow> includesStr s ''order by''"
proof -
  assume a: "orderByMatch s = Some e"
  have "\<And>t. orderByAt t \<noteq> None \<Longrightarrow> startsWith t ''order by''"
    by (simp add: orderByAt_def split: if_splits)
  then show ?thesis
    using a searchFrom_includes [of orderByAt "''order by''" s]
    by (simp add: orderByMatch_def)
qed

lemma wsTry_None_iff:
  "(wsTry cont r j = None) = (\<forall>i. 1 \<le> i \<and> i \<le> j \<longrightarrow> cont (take i r) (drop i r) = None)"
proof (induction j)
  case 0
  then show ?case by simp
next
  case (Suc j)
  show ?case
  proof (cases "cont (take (Suc j) r) (drop (Suc j) r)")
    case None
    then show ?thesis using Suc by (auto simp: le_Suc_eq)
  next
    case (Some x)
    then show ?thesis by auto
  qed
qed

lemma drop_in_run:
  assumes "i < length (takeWhile P r)"
  shows "\<exists>c rest. drop i r = c # rest \<and> P c"
proof -
  have l: "i < length r"
    using assms length_takeWhile_le [of P r] by (meson less_le_trans)
  have "takeWhile P r ! i = r ! i" using assms by (rule takeWhile_nth)
  moreover have "P (takeWhile P r ! i)"
    using assms by (meson nth_mem set_takeWhileD)
  ultimately have "P (r ! i)" by simp
  then show ?thesis using l by (metis Cons_nth_drop_Suc)
qed

lemma paren_not_space: "\<not> isWhiteSpace (CHR ''('')"
  by (simp add: isWhiteSpace_def)

lemma all_le_split:
  "(\<forall>i. i \<le> k \<longrightarrow> Q i) = (Q 0 \<and> (\<forall>i. Suc 0 \<le> i \<and> i \<le> k \<longrightarrow> Q i))"
proof
  assume "\<forall>i. i \<le> k \<longrightarrow> Q i"
  then show "Q 0 \<and> (\<forall>i. Suc 0 \<le> i \<and> i \<le> k \<longrightarrow> Q i)" by simp
next
  assume r: "Q 0 \<and> (\<forall>i. Suc 0 \<le> i \<and> i \<le> k \<longrightarrow> Q i)"
  show "\<forall>i. i \<le> k \<longrightarrow> Q i"
  proof (intro allI impI)
    fix i :: nat
    assume "i \<le> k"
    then show "Q i" using r by (cases i) simp_all
  qed
qed

lemma wsStar_None_iff:
  "(wsStar cont r = None) =
     (\<forall>i. i \<le> length (takeWhile isWhiteSpace r) \<longrightarrow> cont (take i r) (drop i r) = None)"
proof -
  have a: "(wsStar cont r = None) =
      (cont [] r = None \<and> wsTry cont r (length (takeWhile isWhiteSpace r)) = None)"
    by (cases "wsTry cont r (length (takeWhile isWhiteSpace r))")
       (simp_all add: wsStar_def wsPlus_def)
  have b: "(wsTry cont r (length (takeWhile isWhiteSpace r)) = None) =
      (\<forall>i. Suc 0 \<le> i \<and> i \<le> length (takeWhile isWhiteSpace r) \<longrightarrow>
           cont (take i r) (drop i r) = None)"
    using wsTry_None_iff [of cont r "length (takeWhile isWhiteSpace r)"] by simp
  have c: "(\<forall>i. i \<le> length (takeWhile isWhiteSpace r) \<longrightarrow> cont (take i r) (drop i r) = None) =
      (cont (take 0 r) (drop 0 r) = None \<and>
       (\<forall>i. Suc 0 \<le> i \<and> i \<le> length (takeWhile isWhiteSpace r) \<longrightarrow>
            cont (take i r) (drop i r) = None))"
    by (rule all_le_split)
  show ?thesis unfolding a b c by simp
qed

lemma wsStar_paren:
  "(wsStar (\<lambda>ws r. if startsWith r ''('' then Some (f ws) else None) r0 = None)
     = (\<not> startsWith (dropWhile isWhiteSpace r0) ''('')"
proof -
  let ?k = "length (takeWhile isWhiteSpace r0)"
  have inner: "\<not> startsWith (drop i r0) ''(''" if lt: "i < ?k" for i
  proof -
    obtain c rest where "drop i r0 = c # rest" "isWhiteSpace c"
      using drop_in_run [OF lt] by blast
    then show ?thesis using paren_not_space by auto
  qed
  have last: "drop ?k r0 = dropWhile isWhiteSpace r0"
    by (simp add: dropWhile_eq_drop)
  have eq: "((if startsWith t ''('' then Some (f u) else None) = None)
      = (\<not> startsWith t ''('')" for t u
    by simp
  have "(wsStar (\<lambda>ws r. if startsWith r ''('' then Some (f ws) else None) r0 = None)
      = (\<forall>i. i \<le> ?k \<longrightarrow> \<not> startsWith (drop i r0) ''('')"
    unfolding wsStar_None_iff eq by (rule refl)
  also have "\<dots> = (\<not> startsWith (dropWhile isWhiteSpace r0) ''('')"
  proof
    assume "\<forall>i. i \<le> ?k \<longrightarrow> \<not> startsWith (drop i r0) ''(''"
    then have "\<not> startsWith (drop ?k r0) ''(''" by blast
    then show "\<not> startsWith (dropWhile isWhiteSpace r0) ''(''" using last by simp
  next
    assume n: "\<not> startsWith (dropWhile isWhiteSpace r0) ''(''"
    show "\<forall>i. i \<le> ?k \<longrightarrow> \<not> startsWith (drop i r0) ''(''"
    proof (intro allI impI)
      fix i assume "i \<le> ?k"
      then consider "i < ?k" | "i = ?k" by linarith
      then show "\<not> startsWith (drop i r0) ''(''"
      proof cases
        case 1
        then show ?thesis by (rule inner)
      next
        case 2
        then show ?thesis using n last by simp
      qed
    qed
  qed
  finally show ?thesis .
qed

lemma aggregateAlt_None_iff:
  "(aggregateAlt names s = None) =
     (\<not> list_ex (\<lambda>name. startsWith s name \<and>
                  startsWith (dropWhile isWhiteSpace (drop (length name) s)) ''('') names)"
proof (induction names)
  case Nil
  then show ?case by simp
next
  case (Cons name names)
  show ?case
  proof (cases "startsWith s name")
    case True
    show ?thesis
    proof (cases "startsWith (dropWhile isWhiteSpace (drop (length name) s)) ''(''")
      case True
      then have "wsStar (\<lambda>ws r. if startsWith r ''('' then Some (name @ ws @ ''('', name) else None)
          (drop (length name) s) \<noteq> None"
        using wsStar_paren [of "\<lambda>ws. (name @ ws @ ''('', name)" "drop (length name) s"] by simp
      then show ?thesis using True \<open>startsWith s name\<close> by auto
    next
      case False
      then have "wsStar (\<lambda>ws r. if startsWith r ''('' then Some (name @ ws @ ''('', name) else None)
          (drop (length name) s) = None"
        using wsStar_paren [of "\<lambda>ws. (name @ ws @ ''('', name)" "drop (length name) s"] by simp
      then show ?thesis using False \<open>startsWith s name\<close> Cons by simp
    qed
  next
    case False
    then show ?thesis using Cons by simp
  qed
qed

lemma aggregateMatch_None_iff: "(aggregateMatch s = None) = (\<not> hasAggregateCall s)"
proof -
  have "(searchFrom (aggregateAlt aggregateNames) s = None) = (\<not> hasAggregateCall s)"
  proof (induction s)
    case Nil
    then show ?case by (simp add: aggregateNames_def wsStar_def wsPlus_def)
  next
    case (Cons c cs)
    then show ?case
      using aggregateAlt_None_iff [of aggregateNames "c # cs"]
      by (cases "aggregateAlt aggregateNames (c # cs)") (auto simp: aggregateCallAt_def)
  qed
  then show ?thesis by (simp add: aggregateMatch_def)
qed

lemma rewriter_unchanged:
  assumes "\<not> includesStr (toLowerCase q) ''order by'' \<or> orderByMatch (toLowerCase q) = None \<or>
           noAggregateInOrderBy q \<or> alreadyProjected q"
  shows "modifySqlQueryForCharting q = q"
proof (cases "orderByMatch (toLowerCase q)")
  case None
  then show ?thesis by (simp add: modifySqlQueryForCharting_def)
next
  case (Some e)
  then have i: "includesStr (toLowerCase q) ''order by''" by (rule orderByMatch_includes)
  show ?thesis
  proof (cases "aggregateMatch (trim e)")
    case None
    then show ?thesis using Some by (simp add: modifySqlQueryForCharting_def)
  next
    case m: (Some found)
    then have "hasAggregateCall (trim e)"
      using aggregateMatch_None_iff [of "trim e"] by simp
    then have "\<not> noAggregateInOrderBy q" using Some by (simp add: noAggregateInOrderBy_def)
    then have "alreadyProjected q" using assms i Some by simp
    then show ?thesis
      using Some m
      by (auto simp: modifySqlQueryForCharting_def alreadyProjected_def split: option.splits)
  qed
qed

text \<open>
  C3, as the claim states it, fails for white space between the function name and the
  parenthesis: the ordering expression \<open>sum (x)\<close> holds no aggregate name immediately
  followed by a parenthesis, yet the statement is rewritten, because the pattern of the
  source allows white space there.
\<close>

theorem rewriter_passthrough_space_before_paren:
  "orderByMatch (toLowerCase ''SELECT name FROM t ORDER BY SUM (x)'') = Some ''sum (x)''
   \<and> noAggregateParenInOrderBy ''SELECT name FROM t ORDER BY SUM (x)''
   \<and> modifySqlQueryForCharting ''SELECT name FROM t ORDER BY SUM (x)''
       = ''SELECT name, sum ( AS sum_value FROM t ORDER BY SUM (x)''
   \<and> modifySqlQueryForCharting ''SELECT name FROM t ORDER BY SUM (x)''
       \<noteq> ''SELECT name FROM t ORDER BY SUM (x)''"
  by code_simp

text \<open>
  C3, amended. The statement is returned unchanged when (case-insensitively) it has no
  ORDER BY, or the pattern extracts no ordering expression, or the ordering expression
  extracted up to ASC, DESC or the end holds no aggregate-function name sum, count, avg,
  min, max followed, after optional white space, by an opening parenthesis, or the
  projection list between SELECT and FROM already contains the matched aggregate text.
\<close>

theorem rewriter_passthrough:
  assumes "\<not> includesStr (toLowerCase q) ''order by'' \<or> orderByMatch (toLowerCase q) = None \<or>
           noAggregateInOrderBy q \<or> alreadyProjected q"
  shows "modifySqlQueryForCharting q = q"
  using assms by (rule rewriter_unchanged)

lemma passthrough_instances:
  "\<not> includesStr (toLowerCase ''SELECT name FROM customers'') ''order by''"
  "noAggregateInOrderBy ''SELECT name FROM customers ORDER BY name DESC''"
  "alreadyProjected
     ''SELECT name, SUM(amount) AS total FROM customers ORDER BY SUM(amount) DESC''"
  by code_simp+

theorem rewriter_passthrough_witness:
  "modifySqlQueryForCharting ''SELECT name FROM customers'' = ''SELECT name FROM customers''
   \<and> modifySqlQueryForCharting ''SELECT name FROM customers ORDER BY name DESC''
       = ''SELECT name FROM customers ORDER BY name DESC''
   \<and> modifySqlQueryForCharting
         ''SELECT name, SUM(amount) AS total FROM customers ORDER BY SUM(amount) DESC''
       = ''SELECT name, SUM(amount) AS total FROM customers ORDER BY SUM(amount) DESC''"
  using rewriter_passthrough [of "''SELECT name FROM customers''"]
    rewriter_passthrough [of "''SELECT name FROM customers ORDER BY name DESC''"]
    rewriter_passthrough
      [of "''SELECT name, SUM(amount) AS total FROM customers ORDER BY SUM(amount) DESC''"]
    passthrough_instances
  by blast

section \<open>A second pass of the rewriter\<close>

text \<open>
  C2, as the claim states it, fails: the projection list is taken from the lowercased
  statement and replaced, case-sensitively, at its first occurrence in the original one.
  For \<open>SELECT Name FROM names ORDER BY COUNT(*) DESC\<close> that occurrence is inside the table
  name, the projection list stays as it was, and a second pass adds the alias again.
\<close>

theorem rewriter_not_idempotent:
  "modifySqlQueryForCharting ''SELECT Name FROM names ORDER BY COUNT(*) DESC''
     = ''SELECT Name FROM name, count( AS count_values ORDER BY COUNT(*) DESC''
   \<and> modifySqlQueryForCharting
         ''SELECT Name FROM name, count( AS count_values ORDER BY COUNT(*) DESC''
     = ''SELECT Name FROM name, count( AS count_value, count( AS count_values ORDER BY COUNT(*) DESC''
   \<and> modifySqlQueryForCharting
         (modifySqlQueryForCharting ''SELECT Name FROM names ORDER BY COUNT(*) DESC'')
     \<noteq> modifySqlQueryForCharting ''SELECT Name FROM names ORDER BY COUNT(*) DESC''"
  by code_simp

subsection \<open>Matches as decompositions of the text\<close>

text \<open>
  A leftmost match splits the text into the part before the match, where the pattern fails
  at every position, and the rest, where it matches. A greedy run of white space that
  succeeded did so at some length, and failed at every greater length.
\<close>

lemma startsWith_same_tail:
  "Z1 \<noteq> [] \<Longrightarrow> hd Z1 \<notin> set p \<Longrightarrow> Z2 \<noteq> [] \<Longrightarrow> hd Z2 \<notin> set p \<Longrightarrow>
   startsWith (D @ Z1) p = startsWith (D @ Z2) p"
proof (induction D arbitrary: p)
  case Nil
  then show ?case by (cases p; cases Z1; cases Z2) auto
next
  case (Cons d D)
  then show ?case by (cases p) auto
qed

lemma startsWith_append_split:
  assumes "startsWith (v @ Z) p"
  shows "startsWith v p \<or> (\<exists>p2. p2 \<noteq> [] \<and> p = v @ p2 \<and> startsWith Z p2)"
proof -
  obtain rest where e: "v @ Z = p @ rest" using assms startsWith_iff by blast
  then obtain us where "(v = p @ us \<and> us @ Z = rest) \<or> (v @ us = p \<and> Z = us @ rest)"
    using append_eq_append_conv2 [of v Z p rest] by blast
  then show ?thesis
  proof
    assume "v = p @ us \<and> us @ Z = rest"
    then show ?thesis using startsWith_iff by blast
  next
    assume a: "v @ us = p \<and> Z = us @ rest"
    show ?thesis
    proof (cases us)
      case Nil
      then have "v = p @ []" using a by simp
      then show ?thesis using startsWith_iff by blast
    next
      case (Cons u us')
      then have "us \<noteq> []" by simp
      moreover have "startsWith Z us" using a startsWith_iff by blast
      ultimately show ?thesis using a by blast
    qed
  qed
qed

lemma startsWith_hd: "startsWith Y p \<Longrightarrow> p \<noteq> [] \<Longrightarrow> Y \<noteq> [] \<and> hd Y = hd p"
  by (cases Y; cases p) auto

lemma startsWith_prefix: "startsWith (t @ Y) t"
  using startsWith_iff by blast

lemma searchFrom_SomeD:
  assumes "searchFrom m s = Some x"
  obtains P T where "s = P @ T" and "m T = Some x"
    and "\<And>P1 P2. P = P1 @ P2 \<Longrightarrow> P2 \<noteq> [] \<Longrightarrow> m (P2 @ T) = None"
  using assms
proof (induction s arbitrary: thesis)
  case Nil
  have "m [] = Some x" using Nil.prems(2) by simp
  then show ?case using Nil.prems(1) [of "[]" "[]"] by simp
next
  case (Cons c cs)
  show ?case
  proof (cases "m (c # cs)")
    case (Some y)
    then have "m (c # cs) = Some x" using Cons.prems(2) by simp
    then show ?thesis using Cons.prems(1) [of "[]" "c # cs"] by simp
  next
    case None
    then have sf: "searchFrom m cs = Some x" using Cons.prems(2) by simp
    show ?thesis
    proof (rule Cons.IH [OF _ sf])
      fix P T
      assume pt: "cs = P @ T" "m T = Some x"
        "\<And>P1 P2. P = P1 @ P2 \<Longrightarrow> P2 \<noteq> [] \<Longrightarrow> m (P2 @ T) = None"
      have "m (P2 @ T) = None" if a: "c # P = P1 @ P2" "P2 \<noteq> []" for P1 P2
      proof (cases P1)
        case Nil
        then have "P2 @ T = c # cs" using a pt(1) by simp
        then show ?thesis using None by simp
      next
        case (Cons d P1')
        then have "P = P1' @ P2" using a by simp
        then show ?thesis using a(2) pt(3) by simp
      qed
      moreover have "c # cs = (c # P) @ T" using pt(1) by simp
      ultimately show thesis using pt(2) Cons.prems(1) [of "c # P" T] by simp
    qed
  qed
qed

lemma searchFrom_here: "m T = Some x \<Longrightarrow> searchFrom m T = Some x"
  by (cases T) simp_all

lemma searchFrom_SomeI:
  assumes "m T = Some x"
    and "\<And>P1 P2. P = P1 @ P2 \<Longrightarrow> P2 \<noteq> [] \<Longrightarrow> m (P2 @ T) = None"
  shows "searchFrom m (P @ T) = Some x"
  using assms(2)
proof (induction P)
  case Nil
  then show ?case using assms(1) by (simp add: searchFrom_here)
next
  case (Cons c P)
  have n: "m ((c # P) @ T) = None" using Cons.prems [of "[]" "c # P"] by simp
  have "m (P2 @ T) = None" if "P = P1 @ P2" "P2 \<noteq> []" for P1 P2
    using Cons.prems [of "c # P1" P2] that by simp
  then have "searchFrom m (P @ T) = Some x" by (rule Cons.IH)
  then show ?case using n by simp
qed

lemma wsTry_SomeD:
  assumes "wsTry cont r k = Some x"
  obtains j where "1 \<le> j" and "j \<le> k" and "cont (take j r) (drop j r) = Some x"
    and "\<And>j'. j < j' \<Longrightarrow> j' \<le> k \<Longrightarrow> cont (take j' r) (drop j' r) = None"
  using assms
proof (induction k arbitrary: thesis)
  case 0
  then show ?case by simp
next
  case (Suc k)
  show ?case
  proof (cases "cont (take (Suc k) r) (drop (Suc k) r)")
    case (Some y)
    then have "cont (take (Suc k) r) (drop (Suc k) r) = Some x" using Suc.prems(2) by simp
    then show ?thesis using Suc.prems(1) [of "Suc k"] by simp
  next
    case None
    then have w: "wsTry cont r k = Some x" using Suc.prems(2) by simp
    show ?thesis
    proof (rule Suc.IH [OF _ w])
      fix j
      assume j: "1 \<le> j" "j \<le> k" "cont (take j r) (drop j r) = Some x"
        "\<And>j'. j < j' \<Longrightarrow> j' \<le> k \<Longrightarrow> cont (take j' r) (drop j' r) = None"
      have "cont (take j' r) (drop j' r) = None" if a: "j < j'" "j' \<le> Suc k" for j'
      proof (cases "j' = Suc k")
        case True
        then show ?thesis using None by simp
      next
        case False
        then have "j' \<le> k" using a by simp
        then show ?thesis using a(1) j(4) by simp
      qed
      moreover have "j \<le> Suc k" using j(2) by simp
      ultimately show thesis using j(1) j(3) Suc.prems(1) [of j] by simp
    qed
  qed
qed

lemma wsTry_SomeI:
  assumes "1 \<le> j" and "j \<le> k" and "cont (take j r) (drop j r) = Some x"
    and "\<And>j'. j < j' \<Longrightarrow> j' \<le> k \<Longrightarrow> cont (take j' r) (drop j' r) = None"
  shows "wsTry cont r k = Some x"
  using assms(2) assms(4)
proof (induction k)
  case 0
  then show ?case using assms(1) by simp
next
  case (Suc k)
  show ?case
  proof (cases "j = Suc k")
    case True
    then show ?thesis using assms(3) by simp
  next
    case False
    then have le: "j \<le> k" using Suc.prems(1) by simp
    then have n: "cont (take (Suc k) r) (drop (Suc k) r) = None"
      using Suc.prems(2) [of "Suc k"] by simp
    have "cont (take j' r) (drop j' r) = None" if "j < j'" "j' \<le> k" for j'
      using Suc.prems(2) [of j'] that by simp
    then have "wsTry cont r k = Some x" using Suc.IH le by simp
    then show ?thesis using n by simp
  qed
qed

lemma wsStar_SomeD:
  assumes "wsStar cont r = Some x"
  obtains j where "j \<le> length (takeWhile isWhiteSpace r)"
    and "cont (take j r) (drop j r) = Some x"
proof (cases "wsPlus cont r")
  case None
  then have "cont (take 0 r) (drop 0 r) = Some x" using assms by (simp add: wsStar_def)
  then show ?thesis using that [of 0] by simp
next
  case (Some y)
  then have w: "wsTry cont r (length (takeWhile isWhiteSpace r)) = Some x"
    using assms by (simp add: wsStar_def wsPlus_def)
  show ?thesis
  proof (rule wsTry_SomeD [OF w])
    fix j assume "j \<le> length (takeWhile isWhiteSpace r)" "cont (take j r) (drop j r) = Some x"
    then show thesis by (rule that)
  qed
qed

lemma take_in_run: "j \<le> length (takeWhile P r) \<Longrightarrow> \<forall>c \<in> set (take j r). P c"
proof (induction r arbitrary: j)
  case Nil
  then show ?case by simp
next
  case (Cons a r)
  then show ?case by (cases j) (auto split: if_splits)
qed

subsection \<open>The look-ahead for \<open>\s+from\<close>\<close>

text \<open>
  \<open>\s+from\<close> matches at a position when a non-empty run of white space stands there and
  \<open>from\<close> follows the whole run. Whether it matches is therefore decided by the text up to
  the first character after the run that is not in \<open>from\<close>.
\<close>

lemma run_pos: "(0 < length (takeWhile P s)) = (s \<noteq> [] \<and> P (hd s))"
  by (cases s) simp_all

lemma wsFromAt_iff:
  "wsFromAt s =
     (s \<noteq> [] \<and> isWhiteSpace (hd s) \<and> startsWith (dropWhile isWhiteSpace s) ''from'')"
proof -
  let ?k = "length (takeWhile isWhiteSpace s)"
  have inner: "\<not> startsWith (drop i s) ''from''" if lt: "i < ?k" for i
  proof -
    obtain c rest where "drop i s = c # rest" "isWhiteSpace c"
      using drop_in_run [OF lt] by blast
    then show ?thesis by (auto simp: isWhiteSpace_def)
  qed
  have final: "drop ?k s = dropWhile isWhiteSpace s"
    by (simp add: dropWhile_eq_drop)
  have eq: "((if startsWith t ''from'' then Some () else None) = None)
      = (\<not> startsWith t ''from'')" for t
    by simp
  have "(\<not> wsFromAt s) = (\<forall>i. 1 \<le> i \<and> i \<le> ?k \<longrightarrow> \<not> startsWith (drop i s) ''from'')"
    unfolding wsFromAt_def wsPlus_def wsTry_None_iff eq by auto
  also have "\<dots> = (\<not> (0 < ?k \<and> startsWith (dropWhile isWhiteSpace s) ''from''))"
  proof
    assume a: "\<forall>i. 1 \<le> i \<and> i \<le> ?k \<longrightarrow> \<not> startsWith (drop i s) ''from''"
    show "\<not> (0 < ?k \<and> startsWith (dropWhile isWhiteSpace s) ''from'')"
    proof
      assume b: "0 < ?k \<and> startsWith (dropWhile isWhiteSpace s) ''from''"
      then have "1 \<le> ?k \<and> ?k \<le> ?k" by (simp add: Suc_le_eq del: length_greater_0_conv)
      then have "\<not> startsWith (drop ?k s) ''from''" using a by blast
      then show False using b final by simp
    qed
  next
    assume n: "\<not> (0 < ?k \<and> startsWith (dropWhile isWhiteSpace s) ''from'')"
    show "\<forall>i. 1 \<le> i \<and> i \<le> ?k \<longrightarrow> \<not> startsWith (drop i s) ''from''"
    proof (intro allI impI)
      fix i assume i: "1 \<le> i \<and> i \<le> ?k"
      then consider "i < ?k" | "i = ?k" by linarith
      then show "\<not> startsWith (drop i s) ''from''"
      proof cases
        case 1
        then show ?thesis by (rule inner)
      next
        case 2
        then have "0 < ?k" using i by (cases "takeWhile isWhiteSpace s") auto
        then show ?thesis using n final 2 by simp
      qed
    qed
  qed
  finally have "wsFromAt s = (0 < ?k \<and> startsWith (dropWhile isWhiteSpace s) ''from'')"
    by blast
  then show ?thesis using run_pos [of isWhiteSpace s] by simp
qed

lemma wsFromAt_nonempty: "wsFromAt Y \<Longrightarrow> Y \<noteq> [] \<and> isWhiteSpace (hd Y)"
  by (simp add: wsFromAt_iff)

lemma wsFromAt_same_tail:
  assumes "Q \<noteq> []" and "\<not> isWhiteSpace (last Q)"
    and "Z1 \<noteq> []" and "hd Z1 \<notin> set ''from''"
    and "Z2 \<noteq> []" and "hd Z2 \<notin> set ''from''"
  shows "wsFromAt (Q @ Z1) = wsFromAt (Q @ Z2)"
proof -
  have m: "last Q \<in> set Q" using assms(1) by simp
  have d: "dropWhile isWhiteSpace (Q @ Z) = dropWhile isWhiteSpace Q @ Z" for Z
    using m assms(2) by (rule dropWhile_append1)
  have "startsWith (dropWhile isWhiteSpace Q @ Z1) ''from''
      = startsWith (dropWhile isWhiteSpace Q @ Z2) ''from''"
    using assms(3-6) by (rule startsWith_same_tail)
  then show ?thesis using assms(1) by (simp add: wsFromAt_iff d)
qed

lemma wsFromAt_space_before:
  "isWhiteSpace z \<Longrightarrow> wsFromAt Y \<Longrightarrow> wsFromAt (z # Y)"
  by (simp add: wsFromAt_iff)

lemma wsFromAt_prefix:
  assumes w: "wsFromAt (s @ Z1)" and z: "Z1 \<noteq> []" "\<not> isWhiteSpace (hd Z1)" "hd Z1 \<notin> set ''from''"
  shows "wsFromAt (s @ Z2)"
proof -
  have f: "s @ Z1 \<noteq> []" "isWhiteSpace (hd (s @ Z1))"
    "startsWith (dropWhile isWhiteSpace (s @ Z1)) ''from''"
    using w by (simp_all add: wsFromAt_iff)
  have ex: "\<exists>x \<in> set s. \<not> isWhiteSpace x"
  proof (rule ccontr)
    assume "\<not> (\<exists>x \<in> set s. \<not> isWhiteSpace x)"
    then have "\<forall>x \<in> set s. isWhiteSpace x" by simp
    then have "dropWhile isWhiteSpace (s @ Z1) = dropWhile isWhiteSpace Z1"
      by (simp add: dropWhile_append2)
    also have "\<dots> = Z1" using z(1) z(2) by (cases Z1) simp_all
    finally have "startsWith Z1 ''from''" using f(3) by simp
    then have "hd Z1 = hd ''from''" using startsWith_hd by blast
    then show False using z(3) by simp
  qed
  then obtain x where x: "x \<in> set s" "\<not> isWhiteSpace x" by blast
  have d: "dropWhile isWhiteSpace (s @ Z) = dropWhile isWhiteSpace s @ Z" for Z
    using x by (rule dropWhile_append1)
  have ne: "s \<noteq> []" using x(1) by auto
  have "startsWith (dropWhile isWhiteSpace s @ Z1) ''from''" using f(3) d by simp
  then consider "startsWith (dropWhile isWhiteSpace s) ''from''"
    | p2 where "p2 \<noteq> []" "''from'' = dropWhile isWhiteSpace s @ p2" "startsWith Z1 p2"
    using startsWith_append_split by blast
  then have "startsWith (dropWhile isWhiteSpace s) ''from''"
  proof cases
    case 1
    then show ?thesis .
  next
    case 2
    have "hd Z1 = hd p2" using startsWith_hd [OF 2(3) 2(1)] by simp
    moreover have "hd p2 \<in> set p2" using 2(1) by simp
    moreover have "set p2 \<subseteq> set ''from''" using 2(2) by (metis set_append Un_upper2)
    ultimately show ?thesis using z(3) by auto
  qed
  then obtain rest where "dropWhile isWhiteSpace s = ''from'' @ rest"
    using startsWith_iff by blast
  then have "dropWhile isWhiteSpace s @ Z2 = ''from'' @ rest @ Z2" by simp
  then have "startsWith (dropWhile isWhiteSpace s @ Z2) ''from''" using startsWith_iff by blast
  then show ?thesis using ne f(2) d by (simp add: wsFromAt_iff)
qed

lemma no_from_inside:
  assumes y: "wsFromAt Y" and f: "CHR ''f'' \<notin> set u" and u: "u \<noteq> []" "\<not> isWhiteSpace (last u)"
  shows "\<not> wsFromAt (u @ Y)"
proof
  assume w: "wsFromAt (u @ Y)"
  have m: "last u \<in> set u" using u(1) by simp
  have d: "dropWhile isWhiteSpace (u @ Y) = dropWhile isWhiteSpace u @ Y"
    using m u(2) by (rule dropWhile_append1)
  have ne: "dropWhile isWhiteSpace u \<noteq> []" using m u(2) by auto
  have "startsWith (dropWhile isWhiteSpace u @ Y) ''from''" using w d by (simp add: wsFromAt_iff)
  then have "hd (dropWhile isWhiteSpace u @ Y) = hd ''from''" using startsWith_hd by blast
  then have "hd (dropWhile isWhiteSpace u) = CHR ''f''" using ne by simp
  then have "CHR ''f'' \<in> set (dropWhile isWhiteSpace u)" using ne by (metis hd_in_set)
  then have "CHR ''f'' \<in> set u" by (meson set_dropWhileD)
  then show False using f by simp
qed

lemma space_not_from: "isWhiteSpace c \<Longrightarrow> c \<notin> set ''from''"
  by (auto simp: isWhiteSpace_def)

lemma run_with_nonspace:
  assumes "Q \<noteq> []" and "\<not> isWhiteSpace (last Q)"
  shows "takeWhile isWhiteSpace (Q @ Z) = takeWhile isWhiteSpace Q"
    and "length (takeWhile isWhiteSpace Q) < length Q"
proof -
  have m: "last Q \<in> set Q" using assms(1) by simp
  show "takeWhile isWhiteSpace (Q @ Z) = takeWhile isWhiteSpace Q"
    using m assms(2) by (rule takeWhile_append1)
  have "dropWhile isWhiteSpace Q \<noteq> []" using m assms(2) by auto
  then have "0 < length (dropWhile isWhiteSpace Q)" by simp
  moreover have "length (takeWhile isWhiteSpace Q) + length (dropWhile isWhiteSpace Q) = length Q"
    using takeWhile_dropWhile_id [of isWhiteSpace Q] by (metis length_append)
  ultimately show "length (takeWhile isWhiteSpace Q) < length Q" by linarith
qed

subsection \<open>Text inserted at the end of the projection list\<close>

text \<open>
  The lazy group of the SELECT pattern on a text into which \<open>ins\<close> has been inserted just
  before the \<open>\s+from\<close> that ended the group: where the group found no end, it finds none;
  where it ended at the insertion point, it now runs through \<open>ins\<close> and ends after it.
\<close>

lemma lazy_at_from: "wsFromAt Y \<Longrightarrow> lazyToWsFrom Y = Some []"
proof -
  assume y: "wsFromAt Y"
  then obtain c cs where "Y = c # cs" using wsFromAt_nonempty [of Y] by (cases Y) simp_all
  then show ?thesis using y by simp
qed

lemma lazy_None_insert:
  assumes y: "wsFromAt Y" and i: "ins \<noteq> []" "hd ins \<notin> set ''from''"
  shows "Q = [] \<or> \<not> isWhiteSpace (last Q) \<Longrightarrow> lazyToWsFrom (Q @ Y) = None \<Longrightarrow>
         lazyToWsFrom (Q @ ins @ Y) = None"
proof (induction Q)
  case Nil
  then show ?case using lazy_at_from [OF y] by simp
next
  case (Cons c Q)
  have l: "\<not> isWhiteSpace (last (c # Q))" using Cons.prems(1) by simp
  have hy: "Y \<noteq> []" "hd Y \<notin> set ''from''"
    using wsFromAt_nonempty [OF y] space_not_from by auto
  have hi: "ins @ Y \<noteq> []" "hd (ins @ Y) \<notin> set ''from''" using i by auto
  have e: "wsFromAt ((c # Q) @ ins @ Y) = wsFromAt ((c # Q) @ Y)"
    using wsFromAt_same_tail [OF _ l hi hy] by simp
  have q: "Q = [] \<or> \<not> isWhiteSpace (last Q)" using Cons.prems(1) by (cases Q) simp_all
  have n: "\<not> wsFromAt ((c # Q) @ Y)" using Cons.prems(2) by (auto split: if_splits)
  show ?case
  proof (cases "isLineTerminator c")
    case True
    then show ?thesis using n e by simp
  next
    case False
    then have "lazyToWsFrom (Q @ Y) = None" using Cons.prems(2) n by simp
    then have "lazyToWsFrom (Q @ ins @ Y) = None" using Cons.IH q by simp
    then show ?thesis using n e False by simp
  qed
qed

lemma lazy_through_insert:
  assumes y: "wsFromAt Y" and lt: "\<forall>c \<in> set ins. \<not> isLineTerminator c"
    and ns: "\<And>u1 u2. ins = u1 @ u2 \<Longrightarrow> u2 \<noteq> [] \<Longrightarrow> \<not> wsFromAt (u2 @ Y)"
  shows "lazyToWsFrom (ins @ Y) = Some ins"
  using lt ns
proof (induction ins)
  case Nil
  then show ?case using lazy_at_from [OF y] by simp
next
  case (Cons c ins)
  have n: "\<not> wsFromAt ((c # ins) @ Y)" using Cons.prems(2) [of "[]" "c # ins"] by simp
  have "\<not> wsFromAt (u2 @ Y)" if "ins = u1 @ u2" "u2 \<noteq> []" for u1 u2
    using Cons.prems(2) [of "c # u1" u2] that by simp
  then have "lazyToWsFrom (ins @ Y) = Some ins" using Cons.IH Cons.prems(1) by simp
  then show ?case using n Cons.prems(1) by simp
qed

lemma lazy_Some_insert:
  assumes y: "wsFromAt Y" and i: "ins \<noteq> []" "hd ins \<notin> set ''from''"
    and t: "lazyToWsFrom (ins @ Y) = Some ins"
  shows "g = [] \<or> \<not> isWhiteSpace (last g) \<Longrightarrow> lazyToWsFrom (g @ Y) = Some g \<Longrightarrow>
         lazyToWsFrom (g @ ins @ Y) = Some (g @ ins)"
proof (induction g)
  case Nil
  then show ?case using t by simp
next
  case (Cons c g)
  have l: "\<not> isWhiteSpace (last (c # g))" using Cons.prems(1) by simp
  have hy: "Y \<noteq> []" "hd Y \<notin> set ''from''"
    using wsFromAt_nonempty [OF y] space_not_from by auto
  have hi: "ins @ Y \<noteq> []" "hd (ins @ Y) \<notin> set ''from''" using i by auto
  have e: "wsFromAt ((c # g) @ ins @ Y) = wsFromAt ((c # g) @ Y)"
    using wsFromAt_same_tail [OF _ l hi hy] by simp
  have q: "g = [] \<or> \<not> isWhiteSpace (last g)" using Cons.prems(1) by (cases g) simp_all
  have n: "\<not> wsFromAt ((c # g) @ Y)" using Cons.prems(2) by (auto split: if_splits)
  have nl: "\<not> isLineTerminator c" using Cons.prems(2) n by (auto split: if_splits)
  have "lazyToWsFrom (g @ Y) = Some g" using Cons.prems(2) n nl by auto
  then have "lazyToWsFrom (g @ ins @ Y) = Some (g @ ins)" using Cons.IH q by simp
  then show ?case using n e nl by simp
qed

lemma lazy_SomeD:
  "lazyToWsFrom T = Some g \<Longrightarrow>
   \<exists>Y. T = g @ Y \<and> wsFromAt Y \<and> (\<forall>c \<in> set g. \<not> isLineTerminator c)"
proof (induction T arbitrary: g)
  case Nil
  then show ?case by simp
next
  case (Cons c T)
  show ?case
  proof (cases "wsFromAt (c # T)")
    case True
    then have "g = []" using Cons.prems by simp
    then show ?thesis using True by simp
  next
    case False
    then have nl: "\<not> isLineTerminator c" using Cons.prems by (auto split: if_splits)
    then obtain g' where g: "lazyToWsFrom T = Some g'" "g = c # g'"
      using Cons.prems False by auto
    then obtain Y where "T = g' @ Y \<and> wsFromAt Y \<and> (\<forall>c \<in> set g'. \<not> isLineTerminator c)"
      using Cons.IH by blast
    then have "c # T = g @ Y \<and> wsFromAt Y \<and> (\<forall>c \<in> set g. \<not> isLineTerminator c)"
      using g(2) nl by simp
    then show ?thesis by blast
  qed
qed

lemma lazy_no_stop:
  "lazyToWsFrom (g1 @ g2 @ Y) = Some (g1 @ g2) \<Longrightarrow> g2 \<noteq> [] \<Longrightarrow> \<not> wsFromAt (g2 @ Y)"
proof (induction g1)
  case Nil
  then show ?case by (cases g2) (auto split: if_splits)
next
  case (Cons c g1)
  have "lazyToWsFrom (g1 @ g2 @ Y) = Some (g1 @ g2)"
    using Cons.prems(1) by (auto split: if_splits)
  then show ?case using Cons.IH Cons.prems(2) by simp
qed

lemma lazy_last:
  assumes "lazyToWsFrom (g @ Y) = Some g" and "wsFromAt Y" and "g \<noteq> []"
  shows "\<not> isWhiteSpace (last g)"
proof
  assume w: "isWhiteSpace (last g)"
  have "g = butlast g @ [last g]" using assms(3) by simp
  then have "lazyToWsFrom (butlast g @ [last g] @ Y) = Some (butlast g @ [last g])"
    using assms(1) by (metis append.assoc)
  then have "\<not> wsFromAt ([last g] @ Y)" by (rule lazy_no_stop) simp
  then show False using wsFromAt_space_before [OF w assms(2)] by simp
qed

lemma wsPlus_None_insert:
  assumes y: "wsFromAt Y" and i: "ins \<noteq> []" "hd ins \<notin> set ''from''"
    and q: "Q \<noteq> []" "\<not> isWhiteSpace (last Q)"
    and n: "wsPlus (\<lambda>ws r. lazyToWsFrom r) (Q @ Y) = None"
  shows "wsPlus (\<lambda>ws r. lazyToWsFrom r) (Q @ ins @ Y) = None"
proof -
  let ?k = "length (takeWhile isWhiteSpace Q)"
  have k: "?k < length Q" using q by (rule run_with_nonspace(2))
  have r1: "takeWhile isWhiteSpace (Q @ Y) = takeWhile isWhiteSpace Q"
    using q by (rule run_with_nonspace(1))
  have r2: "takeWhile isWhiteSpace (Q @ ins @ Y) = takeWhile isWhiteSpace Q"
    using q by (rule run_with_nonspace(1))
  have a: "\<forall>j. 1 \<le> j \<and> j \<le> ?k \<longrightarrow> lazyToWsFrom (drop j (Q @ Y)) = None"
    using n unfolding wsPlus_def r1 wsTry_None_iff .
  have "\<forall>j. 1 \<le> j \<and> j \<le> ?k \<longrightarrow> lazyToWsFrom (drop j (Q @ ins @ Y)) = None"
  proof (intro allI impI)
    fix j assume j: "1 \<le> j \<and> j \<le> ?k"
    then have jl: "j < length Q" using k by simp
    have "lazyToWsFrom (drop j (Q @ Y)) = None" using a j by blast
    then have o: "lazyToWsFrom (drop j Q @ Y) = None" using jl by simp
    have "drop j Q \<noteq> []" using jl by simp
    moreover have "last (drop j Q) = last Q" using jl by (rule last_drop)
    ultimately have "drop j Q = [] \<or> \<not> isWhiteSpace (last (drop j Q))" using q(2) by simp
    then have "lazyToWsFrom (drop j Q @ ins @ Y) = None"
      using o by (rule lazy_None_insert [OF y i])
    then show "lazyToWsFrom (drop j (Q @ ins @ Y)) = None" using jl by simp
  qed
  then show ?thesis unfolding wsPlus_def r2 wsTry_None_iff .
qed

lemma selectAt_None_insert:
  assumes y: "wsFromAt Y" and i: "ins \<noteq> []" "hd ins = CHR '',''"
    and u: "U \<noteq> []" "\<not> isWhiteSpace (last U)"
    and n: "selectAt (U @ Y) = None"
  shows "selectAt (U @ ins @ Y) = None"
proof -
  have hy: "Y \<noteq> []" "isWhiteSpace (hd Y)" using wsFromAt_nonempty [OF y] by simp_all
  have hys: "hd Y \<notin> set ''select''" using hy(2) by (auto simp: isWhiteSpace_def)
  have his: "ins @ Y \<noteq> []" "hd (ins @ Y) \<notin> set ''select''" using i by simp_all
  have hif: "hd ins \<notin> set ''from''" using i(2) by simp
  have same: "startsWith (U @ ins @ Y) ''select'' = startsWith (U @ Y) ''select''"
    using his hy(1) hys by (rule startsWith_same_tail)
  show ?thesis
  proof (cases "startsWith (U @ Y) ''select''")
    case False
    then show ?thesis using same by (simp add: selectAt_def)
  next
    case True
    have "\<not> (\<exists>p2. p2 \<noteq> [] \<and> ''select'' = U @ p2 \<and> startsWith Y p2)"
    proof
      assume "\<exists>p2. p2 \<noteq> [] \<and> ''select'' = U @ p2 \<and> startsWith Y p2"
      then obtain p2 where p: "p2 \<noteq> []" "''select'' = U @ p2" "startsWith Y p2" by blast
      have "hd Y = hd p2" using startsWith_hd [OF p(3) p(1)] by simp
      moreover have "hd p2 \<in> set p2" using p(1) by simp
      moreover have "set p2 \<subseteq> set ''select''" using p(2) by (metis set_append Un_upper2)
      ultimately show False using hys by auto
    qed
    then have "startsWith U ''select''" using startsWith_append_split [OF True] by blast
    then obtain Q where Q: "U = ''select'' @ Q" using startsWith_iff by blast
    have l: "length ''select'' = 6" by simp
    have d: "drop 6 (U @ Z) = Q @ Z" for Z unfolding Q using l by simp
    have o: "wsPlus (\<lambda>ws r. lazyToWsFrom r) (Q @ Y) = None"
      using n True d [of Y] by (simp add: selectAt_def)
    have "wsPlus (\<lambda>ws r. lazyToWsFrom r) (Q @ ins @ Y) = None"
    proof (cases "Q = []")
      case True
      have "takeWhile isWhiteSpace (ins @ Y) = []"
        using i by (cases ins) (simp_all add: isWhiteSpace_def)
      then show ?thesis using True by (simp add: wsPlus_def)
    next
      case False
      then have "last Q = last U" using Q by simp
      then have "\<not> isWhiteSpace (last Q)" using u(2) by simp
      then show ?thesis using wsPlus_None_insert [OF y i(1) hif False _ o] by simp
    qed
    then show ?thesis using True same d [of "ins @ Y"] by (simp add: selectAt_def)
  qed
qed

lemma selectMatch_SomeD:
  assumes "selectMatch s = Some sel"
  obtains P W Y where "s = P @ ''select'' @ W @ sel @ Y"
    and "\<And>P1 P2. P = P1 @ P2 \<Longrightarrow> P2 \<noteq> [] \<Longrightarrow> selectAt (P2 @ ''select'' @ W @ sel @ Y) = None"
    and "1 \<le> length W"
    and "length W \<le> length (takeWhile isWhiteSpace (W @ sel @ Y))"
    and "\<And>j'. length W < j' \<Longrightarrow> j' \<le> length (takeWhile isWhiteSpace (W @ sel @ Y)) \<Longrightarrow>
           lazyToWsFrom (drop j' (W @ sel @ Y)) = None"
    and "lazyToWsFrom (sel @ Y) = Some sel" and "wsFromAt Y"
    and "\<forall>c \<in> set sel. \<not> isLineTerminator c"
proof -
  have sf: "searchFrom selectAt s = Some sel" using assms by (simp add: selectMatch_def)
  obtain P T where pt: "s = P @ T" "selectAt T = Some sel"
    "\<And>P1 P2. P = P1 @ P2 \<Longrightarrow> P2 \<noteq> [] \<Longrightarrow> selectAt (P2 @ T) = None"
    by (rule searchFrom_SomeD [OF sf]) blast
  have st: "startsWith T ''select''" using pt(2) by (simp add: selectAt_def split: if_splits)
  then obtain R where R: "T = ''select'' @ R" using startsWith_iff by blast
  have l: "length ''select'' = 6" by simp
  have "drop 6 T = R" unfolding R using l by simp
  then have wt: "wsTry (\<lambda>ws r. lazyToWsFrom r) R (length (takeWhile isWhiteSpace R)) = Some sel"
    using pt(2) st by (simp add: selectAt_def wsPlus_def)
  obtain j where j: "1 \<le> j" "j \<le> length (takeWhile isWhiteSpace R)"
    "lazyToWsFrom (drop j R) = Some sel"
    "\<And>j'. j < j' \<Longrightarrow> j' \<le> length (takeWhile isWhiteSpace R) \<Longrightarrow> lazyToWsFrom (drop j' R) = None"
    by (rule wsTry_SomeD [OF wt]) blast
  obtain Y where Y: "drop j R = sel @ Y" "wsFromAt Y" "\<forall>c \<in> set sel. \<not> isLineTerminator c"
    using lazy_SomeD [OF j(3)] by blast
  define W where "W = take j R"
  have jr: "j \<le> length R" using j(2) length_takeWhile_le [of isWhiteSpace R] by (rule le_trans)
  have lw: "length W = j" using jr by (simp add: W_def)
  have RW: "R = W @ sel @ Y" using append_take_drop_id [of j R] Y(1) by (simp add: W_def)
  have T: "T = ''select'' @ W @ sel @ Y" using R RW by simp
  show thesis
  proof (rule that [of P W Y])
    show "s = P @ ''select'' @ W @ sel @ Y" using pt(1) T by simp
    show "selectAt (P2 @ ''select'' @ W @ sel @ Y) = None" if "P = P1 @ P2" "P2 \<noteq> []" for P1 P2
      using pt(3) [OF that] T by simp
    show "1 \<le> length W" using lw j(1) by simp
    show "length W \<le> length (takeWhile isWhiteSpace (W @ sel @ Y))" using lw j(2) RW by simp
    show "lazyToWsFrom (drop j' (W @ sel @ Y)) = None"
      if "length W < j'" "j' \<le> length (takeWhile isWhiteSpace (W @ sel @ Y))" for j'
      using j(4) [of j'] that lw RW by simp
    show "lazyToWsFrom (sel @ Y) = Some sel" using j(3) Y(1) by simp
    show "wsFromAt Y" by (rule Y(2))
    show "\<forall>c \<in> set sel. \<not> isLineTerminator c" by (rule Y(3))
  qed
qed

lemma selectMatch_insert:
  assumes m: "selectMatch s = Some sel" and ne: "sel \<noteq> []"
    and i: "ins \<noteq> []" "hd ins = CHR '',''" "\<forall>c \<in> set ins. \<not> isLineTerminator c"
      "CHR ''f'' \<notin> set ins" "\<not> isWhiteSpace (last ins)"
  obtains X Y where "s = X @ sel @ Y" and "wsFromAt Y"
    and "selectMatch (X @ sel @ ins @ Y) = Some (sel @ ins)"
    and "lazyToWsFrom (sel @ Y) = Some sel"
proof -
  obtain P W Y where d: "s = P @ ''select'' @ W @ sel @ Y"
    "\<And>P1 P2. P = P1 @ P2 \<Longrightarrow> P2 \<noteq> [] \<Longrightarrow> selectAt (P2 @ ''select'' @ W @ sel @ Y) = None"
    "1 \<le> length W"
    "length W \<le> length (takeWhile isWhiteSpace (W @ sel @ Y))"
    "\<And>j'. length W < j' \<Longrightarrow> j' \<le> length (takeWhile isWhiteSpace (W @ sel @ Y)) \<Longrightarrow>
           lazyToWsFrom (drop j' (W @ sel @ Y)) = None"
    "lazyToWsFrom (sel @ Y) = Some sel" "wsFromAt Y"
    "\<forall>c \<in> set sel. \<not> isLineTerminator c"
    by (rule selectMatch_SomeD [OF m]) blast
  have y: "wsFromAt Y" by (rule d(7))
  have hif: "hd ins \<notin> set ''from''" using i(2) by simp
  have ls: "\<not> isWhiteSpace (last sel)" using d(6) y ne by (rule lazy_last)
  define H where "H = W @ sel"
  have hne: "H \<noteq> []" using ne by (simp add: H_def)
  have hl: "\<not> isWhiteSpace (last H)" using ls ne by (simp add: H_def)
  have r1: "takeWhile isWhiteSpace (H @ Y) = takeWhile isWhiteSpace H"
    using hne hl by (rule run_with_nonspace(1))
  have r2: "takeWhile isWhiteSpace (H @ ins @ Y) = takeWhile isWhiteSpace H"
    using hne hl by (rule run_with_nonspace(1))
  have k: "length (takeWhile isWhiteSpace H) < length H"
    using hne hl by (rule run_with_nonspace(2))
  have through: "lazyToWsFrom (ins @ Y) = Some ins"
  proof (rule lazy_through_insert [OF y i(3)])
    fix u1 u2 assume u: "ins = u1 @ u2" "u2 \<noteq> []"
    then have "CHR ''f'' \<notin> set u2" using i(4) by auto
    moreover have "\<not> isWhiteSpace (last u2)" using u i(5) by simp
    ultimately show "\<not> wsFromAt (u2 @ Y)" using no_from_inside [OF y _ u(2)] by simp
  qed
  have here: "lazyToWsFrom (sel @ ins @ Y) = Some (sel @ ins)"
    using lazy_Some_insert [OF y i(1) hif through _ d(6)] ls by simp
  have above: "lazyToWsFrom (drop j' (H @ ins @ Y)) = None"
    if j: "length W < j'" "j' \<le> length (takeWhile isWhiteSpace H)" for j'
  proof -
    have jl: "j' < length H" using j(2) k by simp
    have "lazyToWsFrom (drop j' (W @ sel @ Y)) = None" using d(5) [of j'] j r1 by (simp add: H_def)
    then have "lazyToWsFrom (drop j' (H @ Y)) = None" by (simp add: H_def)
    then have o: "lazyToWsFrom (drop j' H @ Y) = None" using jl by simp
    have "drop j' H \<noteq> []" using jl by simp
    moreover have "last (drop j' H) = last H" using jl by (rule last_drop)
    ultimately have "drop j' H = [] \<or> \<not> isWhiteSpace (last (drop j' H))" using hl by simp
    then have "lazyToWsFrom (drop j' H @ ins @ Y) = None"
      using o by (rule lazy_None_insert [OF y i(1) hif])
    then show ?thesis using jl by simp
  qed
  have le: "length W \<le> length (takeWhile isWhiteSpace H)" using d(4) r1 by (simp add: H_def)
  have w0: "wsTry (\<lambda>ws r. lazyToWsFrom r) (H @ ins @ Y) (length (takeWhile isWhiteSpace H))
      = Some (sel @ ins)"
  proof (rule wsTry_SomeI [OF d(3) le])
    show "lazyToWsFrom (drop (length W) (H @ ins @ Y)) = Some (sel @ ins)"
      using here by (simp add: H_def)
    show "lazyToWsFrom (drop j' (H @ ins @ Y)) = None"
      if "length W < j'" "j' \<le> length (takeWhile isWhiteSpace H)" for j'
      using that by (rule above)
  qed
  have w: "wsPlus (\<lambda>ws r. lazyToWsFrom r) (W @ sel @ ins @ Y) = Some (sel @ ins)"
    using w0 r2 by (simp add: wsPlus_def H_def)
  have l: "length ''select'' = 6" by simp
  have dr: "drop 6 (''select'' @ Z) = Z" for Z :: string using l by simp
  have sw: "startsWith (''select'' @ Z) ''select''" for Z using startsWith_iff by blast
  have at: "selectAt (''select'' @ W @ sel @ ins @ Y) = Some (sel @ ins)"
    unfolding selectAt_def using w sw [of "W @ sel @ ins @ Y"] dr [of "W @ sel @ ins @ Y"]
    by simp
  have earlier: "selectAt (P2 @ ''select'' @ W @ sel @ ins @ Y) = None"
    if p: "P = P1 @ P2" "P2 \<noteq> []" for P1 P2
  proof -
    let ?U = "P2 @ ''select'' @ W @ sel"
    have "selectAt (?U @ Y) = None" using d(2) [OF p] by simp
    moreover have "?U \<noteq> []" using ne by simp
    moreover have "\<not> isWhiteSpace (last ?U)" using ls ne by simp
    ultimately have "selectAt (?U @ ins @ Y) = None"
      using selectAt_None_insert [OF y i(1) i(2)] by blast
    then show ?thesis by simp
  qed
  have "searchFrom selectAt (P @ ''select'' @ W @ sel @ ins @ Y) = Some (sel @ ins)"
    using at earlier by (rule searchFrom_SomeI)
  then have "selectMatch ((P @ ''select'' @ W) @ sel @ ins @ Y) = Some (sel @ ins)"
    by (simp add: selectMatch_def)
  moreover have "s = (P @ ''select'' @ W) @ sel @ Y" using d(1) by simp
  ultimately show thesis using that [of "P @ ''select'' @ W" Y] y d(6) by blast
qed

subsection \<open>Lowercasing, the replacement template and occurrences\<close>

lemma toLowerChar_idem: "toLowerChar (toLowerChar c) = toLowerChar c"
  unfolding toLowerChar_def by (auto split: option.splits if_splits)

lemma toLowerCase_idem: "toLowerCase (toLowerCase s) = toLowerCase s"
  by (simp add: toLowerCase_def toLowerChar_idem)

lemma toLowerCase_append: "toLowerCase (a @ b) = toLowerCase a @ toLowerCase b"
  by (simp add: toLowerCase_def)

lemma toLowerCase_infix:
  assumes "toLowerCase s = a @ b @ c"
  shows "toLowerCase b = b"
proof -
  have "toLowerCase (a @ b @ c) = a @ b @ c" using assms toLowerCase_idem [of s] by simp
  then have e: "toLowerCase a @ toLowerCase b @ toLowerCase c = a @ b @ c"
    by (simp add: toLowerCase_append)
  have la: "length (toLowerCase a) = length a" by (simp add: toLowerCase_def)
  have lb: "length (toLowerCase b) = length b" by (simp add: toLowerCase_def)
  have "toLowerCase b @ toLowerCase c = b @ c" using e la by simp
  then show ?thesis using lb by simp
qed

lemma toLowerChar_space:
  assumes "isWhiteSpace c"
  shows "toLowerChar c = c"
proof -
  have "c = CHR 0x09 \<or> c = CHR 0x0A \<or> c = CHR 0x0B \<or> c = CHR 0x0C \<or> c = CHR 0x0D \<or> c = CHR 0x20"
    using assms by (simp add: isWhiteSpace_def)
  then show ?thesis by (elim disjE) (simp_all add: toLowerChar_def)
qed

lemma toLowerCase_space: "\<forall>c \<in> set w. isWhiteSpace c \<Longrightarrow> toLowerCase w = w"
  by (induction w) (simp_all add: toLowerCase_def toLowerChar_space)

lemma toLowerCase_name: "name \<in> set aggregateNames \<Longrightarrow> toLowerCase name = name"
  by (auto simp: aggregateNames_def toLowerCase_def toLowerChar_def)

lemma lower_fixed_chars: "toLowerCase s = s \<Longrightarrow> c \<in> set s \<Longrightarrow> toLowerChar c = c"
  by (induction s) (auto simp: toLowerCase_def)

lemma lower_no_upper:
  assumes "toLowerCase s = s"
  shows "CHR ''A'' \<notin> set s" and "CHR ''S'' \<notin> set s"
proof -
  have a: "toLowerChar (CHR ''A'') \<noteq> CHR ''A''" "toLowerChar (CHR ''S'') \<noteq> CHR ''S''"
    by (simp_all add: toLowerChar_def)
  show "CHR ''A'' \<notin> set s" using lower_fixed_chars [OF assms, of "CHR ''A''"] a(1) by blast
  show "CHR ''S'' \<notin> set s" using lower_fixed_chars [OF assms, of "CHR ''S''"] a(2) by blast
qed

lemma getSubstitution_plain:
  "CHR 0x24 \<notin> set repl \<Longrightarrow> getSubstitution m f b repl = repl"
  by (induction m f b repl rule: getSubstitution.induct) auto

lemma occurrences_ge1: "1 \<le> occurrences (X @ t @ Y) t"
proof (induction X)
  case Nil
  show ?case by (cases "t @ Y") (use startsWith_prefix [of t Y] in auto)
next
  case (Cons c X)
  then show ?case by simp
qed

lemma occurrences_first:
  "2 \<le> occurrences (t @ Y1) t" if "t @ Y1 = (c # X2) @ t @ Y2"
proof -
  have e: "t @ Y1 = c # (X2 @ t @ Y2)" using that by simp
  have "startsWith (t @ Y1) t" by (rule startsWith_prefix)
  then have sw: "startsWith (c # (X2 @ t @ Y2)) t" unfolding e .
  have "occurrences (t @ Y1) t = 1 + occurrences (X2 @ t @ Y2) t"
    unfolding e using sw by simp
  then show ?thesis using occurrences_ge1 [of X2 t Y2] by simp
qed

lemma occurrences_two:
  "s = X1 @ t @ Y1 \<Longrightarrow> s = X2 @ t @ Y2 \<Longrightarrow> X1 \<noteq> X2 \<Longrightarrow> 2 \<le> occurrences s t"
proof (induction X1 arbitrary: X2 s)
  case Nil
  then obtain c X2' where "X2 = c # X2'" by (cases X2) auto
  then have "t @ Y1 = (c # X2') @ t @ Y2" using Nil by simp
  then have "2 \<le> occurrences (t @ Y1) t" by (rule occurrences_first)
  then show ?case using Nil by simp
next
  case (Cons c X1)
  show ?case
  proof (cases X2)
    case Nil
    then have "t @ Y2 = (c # X1) @ t @ Y1" using Cons.prems by simp
    then have "2 \<le> occurrences (t @ Y2) t" by (rule occurrences_first)
    then show ?thesis using Cons.prems Nil by simp
  next
    case (Cons d X2')
    then have e: "d = c" "X1 @ t @ Y1 = X2' @ t @ Y2" "X1 \<noteq> X2'"
      using Cons.prems by auto
    have "2 \<le> occurrences (X1 @ t @ Y1) t"
      using Cons.IH [of "X1 @ t @ Y1" X2'] e by simp
    then show ?thesis using Cons.prems(1) by simp
  qed
qed

lemma occurrences_unique:
  assumes "occurrences s t = 1" and "s = X1 @ t @ Y1" and "s = X2 @ t @ Y2"
  shows "X1 = X2 \<and> Y1 = Y2"
proof -
  have "X1 = X2" using occurrences_two [OF assms(2) assms(3)] assms(1) by auto
  then show ?thesis using assms(2) assms(3) by simp
qed

lemma infix_avoiding_char:
  assumes e: "R1 @ c # R2 = P @ t @ S" and c: "c \<notin> set t"
  shows "(\<exists>S'. R1 = P @ t @ S') \<or> (\<exists>P'. R2 = P' @ t @ S)"
proof -
  obtain u where u: "(R1 = P @ u \<and> u @ c # R2 = t @ S) \<or> (R1 @ u = P \<and> c # R2 = u @ t @ S)"
    using e append_eq_append_conv2 [of R1 "c # R2" P "t @ S"] by blast
  then show ?thesis
  proof
    assume a: "R1 = P @ u \<and> u @ c # R2 = t @ S"
    then obtain v where v: "(u = t @ v \<and> v @ c # R2 = S) \<or> (u @ v = t \<and> c # R2 = v @ S)"
      using append_eq_append_conv2 [of u "c # R2" t S] by blast
    then show ?thesis
    proof
      assume "u = t @ v \<and> v @ c # R2 = S"
      then have "R1 = P @ t @ v" using a by simp
      then show ?thesis by blast
    next
      assume b: "u @ v = t \<and> c # R2 = v @ S"
      have "v = []"
      proof (cases v)
        case Nil
        then show ?thesis .
      next
        case (Cons d v')
        then have "c \<in> set t" using b by auto
        then show ?thesis using c by simp
      qed
      then have "R1 = P @ t @ []" using a b by simp
      then show ?thesis by blast
    qed
  next
    assume a: "R1 @ u = P \<and> c # R2 = u @ t @ S"
    show ?thesis
    proof (cases u)
      case Nil
      then have ts: "c # R2 = t @ S" using a by simp
      have "t = []"
      proof (cases t)
        case Nil
        then show ?thesis .
      next
        case (Cons d t')
        then have "c \<in> set t" using ts by auto
        then show ?thesis using c by simp
      qed
      then have "R1 = P @ t @ []" using a Nil by simp
      then show ?thesis by blast
    next
      case (Cons d u')
      then have "R2 = u' @ t @ S" using a by simp
      then show ?thesis by blast
    qed
  qed
qed

subsection \<open>The aggregate match and the text the rewriter appends\<close>

text \<open>
  Element 0 of the aggregate match is one of the five names, white space or none, and an
  opening parenthesis, taken from the ordering expression, which holds no line terminator.
\<close>

lemma aggregateAlt_SomeD:
  "aggregateAlt names T = Some (agg, name) \<Longrightarrow>
   name \<in> set names \<and>
   (\<exists>w rest. agg = name @ w @ ''('' \<and> (\<forall>c \<in> set w. isWhiteSpace c) \<and> T = agg @ rest)"
proof (induction names)
  case Nil
  then show ?case by simp
next
  case (Cons n names)
  let ?cont = "\<lambda>ws r. if startsWith r ''('' then Some (n @ ws @ ''('', n) else None"
  show ?case
  proof (cases "startsWith T n \<and> wsStar ?cont (drop (length n) T) \<noteq> None")
    case False
    have "aggregateAlt (n # names) T = aggregateAlt names T"
    proof (cases "startsWith T n")
      case True
      then have "wsStar ?cont (drop (length n) T) = None" using False by blast
      then show ?thesis using True by simp
    next
      case False
      then show ?thesis by simp
    qed
    then have "aggregateAlt names T = Some (agg, name)" using Cons.prems by simp
    then show ?thesis using Cons.IH by auto
  next
    case True
    then obtain r where r: "T = n @ r" using startsWith_iff by blast
    have dr: "drop (length n) T = r" using r by simp
    have w: "wsStar ?cont r = Some (agg, name)" using True Cons.prems dr by auto
    obtain j where j: "j \<le> length (takeWhile isWhiteSpace r)"
      "?cont (take j r) (drop j r) = Some (agg, name)"
      by (rule wsStar_SomeD [OF w]) blast
    have p: "startsWith (drop j r) ''(''" using j(2) by (simp split: if_splits)
    have a: "agg = n @ take j r @ ''(''" "name = n" using j(2) by (auto split: if_splits)
    obtain rest where rest: "drop j r = ''('' @ rest" using p startsWith_iff by blast
    have "r = take j r @ ''('' @ rest" using append_take_drop_id [of j r] rest by simp
    then have "T = agg @ rest" using r a(1) by simp
    moreover have "\<forall>c \<in> set (take j r). isWhiteSpace c" using j(1) by (rule take_in_run)
    ultimately show ?thesis using a by auto
  qed
qed

lemma aggregateMatch_SomeD:
  assumes "aggregateMatch s = Some (agg, name)"
  shows "name \<in> set aggregateNames"
    and "\<exists>w. agg = name @ w @ ''('' \<and> (\<forall>c \<in> set w. isWhiteSpace c)"
    and "set agg \<subseteq> set s"
proof -
  have sf: "searchFrom (aggregateAlt aggregateNames) s = Some (agg, name)"
    using assms by (simp add: aggregateMatch_def)
  obtain P T where pt: "s = P @ T" "aggregateAlt aggregateNames T = Some (agg, name)"
    by (rule searchFrom_SomeD [OF sf]) blast
  have d: "name \<in> set aggregateNames \<and>
   (\<exists>w rest. agg = name @ w @ ''('' \<and> (\<forall>c \<in> set w. isWhiteSpace c) \<and> T = agg @ rest)"
    using pt(2) by (rule aggregateAlt_SomeD)
  show "name \<in> set aggregateNames" using d by simp
  show "\<exists>w. agg = name @ w @ ''('' \<and> (\<forall>c \<in> set w. isWhiteSpace c)" using d by blast
  obtain rest where "T = agg @ rest" using d by blast
  then show "set agg \<subseteq> set s" using pt(1) by auto
qed

lemma lazyToAscDesc_chars:
  "lazyToAscDesc T = Some e \<Longrightarrow> \<forall>c \<in> set e. \<not> isLineTerminator c"
proof (induction T arbitrary: e)
  case Nil
  then show ?case by simp
next
  case (Cons c T)
  show ?case
  proof (cases "startsWith (c # T) ''asc'' \<or> startsWith (c # T) ''desc''")
    case True
    then have "e = []" using Cons.prems by auto
    then show ?thesis by simp
  next
    case False
    then have nl: "\<not> isLineTerminator c" using Cons.prems by (auto split: if_splits)
    then obtain e' where e: "lazyToAscDesc T = Some e'" "e = c # e'"
      using Cons.prems False by auto
    then show ?thesis using Cons.IH [OF e(1)] nl by simp
  qed
qed

lemma orderByMatch_chars:
  assumes "orderByMatch s = Some e"
  shows "\<forall>c \<in> set e. \<not> isLineTerminator c"
proof -
  have sf: "searchFrom orderByAt s = Some e" using assms by (simp add: orderByMatch_def)
  obtain P T where pt: "orderByAt T = Some e"
    by (rule searchFrom_SomeD [OF sf]) blast
  then have w: "wsTry (\<lambda>ws r. lazyToAscDesc r) (drop 8 T)
      (length (takeWhile isWhiteSpace (drop 8 T))) = Some e"
    by (simp add: orderByAt_def wsPlus_def split: if_splits)
  obtain j where "lazyToAscDesc (drop j (drop 8 T)) = Some e"
    by (rule wsTry_SomeD [OF w]) blast
  then show ?thesis by (rule lazyToAscDesc_chars)
qed

lemma trim_subset: "set (trim e) \<subseteq> set e"
proof -
  have "set (trim e) \<subseteq> set (rev (dropWhile isWhiteSpace e))"
    unfolding trim_def using set_dropWhileD [of _ isWhiteSpace "rev (dropWhile isWhiteSpace e)"]
    by auto
  also have "\<dots> \<subseteq> set e" using set_dropWhileD [of _ isWhiteSpace e] by auto
  finally show ?thesis .
qed

lemma space_chars:
  "isWhiteSpace c \<Longrightarrow> c \<noteq> CHR ''f'' \<and> c \<noteq> CHR 0x24"
  unfolding isWhiteSpace_def by auto

lemma name_chars:
  assumes "name \<in> set aggregateNames"
  shows "CHR ''f'' \<notin> set name" and "CHR '','' \<notin> set name" and "CHR 0x24 \<notin> set name"
    and "\<forall>c \<in> set name. \<not> isLineTerminator c"
proof -
  have n: "name = ''sum'' \<or> name = ''count'' \<or> name = ''avg'' \<or> name = ''min'' \<or> name = ''max''"
    using assms by (simp add: aggregateNames_def)
  show "CHR ''f'' \<notin> set name" using n by (elim disjE) simp_all
  show "CHR '','' \<notin> set name" using n by (elim disjE) simp_all
  show "CHR 0x24 \<notin> set name" using n by (elim disjE) simp_all
  show "\<forall>c \<in> set name. \<not> isLineTerminator c"
    using n by (elim disjE) (simp_all add: isLineTerminator_def)
qed

lemma appended_text:
  assumes n: "name \<in> set aggregateNames"
    and w: "\<forall>c \<in> set w. isWhiteSpace c" and l: "\<forall>c \<in> set w. \<not> isLineTerminator c"
    and ins: "ins = '', '' @ (name @ w @ ''('') @ '' as '' @ name @ ''_value''"
  shows "ins \<noteq> []" and "hd ins = CHR '',''" and "\<forall>c \<in> set ins. \<not> isLineTerminator c"
    and "CHR ''f'' \<notin> set ins" and "last ins = CHR ''e''"
    and "toLowerCase ('', '' @ (name @ w @ ''('') @ '' AS '' @ name @ ''_value'') = ins"
    and "CHR 0x24 \<notin> set ('', '' @ (name @ w @ ''('') @ '' AS '' @ name @ ''_value'')"
    and "CHR '','' \<notin> set ('' '' @ name @ ''_value'')"
    and "toLowerCase ins = ins"
proof -
  show "ins \<noteq> []" using ins by simp
  show "hd ins = CHR '',''" using ins by simp
  show "\<forall>c \<in> set ins. \<not> isLineTerminator c"
    using name_chars(4) [OF n] l by (auto simp: ins isLineTerminator_def)
  show "CHR ''f'' \<notin> set ins"
    using name_chars(1) [OF n] w space_chars by (auto simp: ins)
  show "last ins = CHR ''e''" by (simp add: ins)
  have "toLowerCase '', '' = '', ''" "toLowerCase ''('' = ''(''" "toLowerCase '' AS '' = '' as ''"
    "toLowerCase ''_value'' = ''_value''"
    by (simp_all add: toLowerCase_def toLowerChar_def)
  then show i: "toLowerCase ('', '' @ (name @ w @ ''('') @ '' AS '' @ name @ ''_value'') = ins"
    using toLowerCase_name [OF n] toLowerCase_space [OF w]
    by (simp only: toLowerCase_append ins)
  show "CHR 0x24 \<notin> set ('', '' @ (name @ w @ ''('') @ '' AS '' @ name @ ''_value'')"
    using name_chars(3) [OF n] w space_chars by auto
  show "CHR '','' \<notin> set ('' '' @ name @ ''_value'')" using name_chars(2) [OF n] by simp
  show "toLowerCase ins = ins" using i toLowerCase_idem by metis
qed

lemma rewrite_branch:
  assumes "modifySqlQueryForCharting q \<noteq> q"
  obtains e agg name sel where "orderByMatch (toLowerCase q) = Some e"
    and "aggregateMatch (trim e) = Some (agg, name)"
    and "selectMatch (toLowerCase q) = Some sel" and "sel \<noteq> []"
    and "modifySqlQueryForCharting q
           = replaceStr q sel (sel @ '', '' @ agg @ '' AS '' @ name @ ''_value'')"
proof (cases "orderByMatch (toLowerCase q)")
  case None
  then show ?thesis using assms by (simp add: modifySqlQueryForCharting_def)
next
  case e: (Some e)
  show ?thesis
  proof (cases "aggregateMatch (trim e)")
    case None
    then show ?thesis using assms e
      by (simp add: modifySqlQueryForCharting_def Let_def split: if_splits)
  next
    case (Some m)
    obtain agg name where m: "m = (agg, name)" by (cases m)
    have a: "aggregateMatch (trim e) = Some (agg, name)" using Some m by simp
    show ?thesis
    proof (cases "selectMatch (toLowerCase q)")
      case None
      then show ?thesis using assms e a
        by (simp add: modifySqlQueryForCharting_def Let_def split: if_splits)
    next
      case s: (Some sel)
      have ne: "sel \<noteq> []" using assms e a s
        by (auto simp: modifySqlQueryForCharting_def Let_def split: if_splits)
      have "modifySqlQueryForCharting q
           = replaceStr q sel (sel @ '', '' @ agg @ '' AS '' @ name @ ''_value'')"
        using assms e a s by (auto simp: modifySqlQueryForCharting_def Let_def split: if_splits)
      then show ?thesis using that [OF e a s ne] by simp
    qed
  qed
qed

subsection \<open>The enlarged projection list in the rewritten statement\<close>

text \<open>
  When the projection list occurs once in the lowercased statement, the enlarged list,
  which is lower case, does not occur in the rewritten statement, where the appended \<open>AS\<close>
  is upper case: an occurrence elsewhere would contain a second occurrence of the
  projection list, or a \<open>\s+from\<close> inside it.
\<close>

lemma no_second_occurrence:
  assumes lz: "lazyToWsFrom (sel @ toLowerCase B) = Some sel" and y: "wsFromAt (toLowerCase B)"
    and ne: "sel \<noteq> []" and lsel: "toLowerCase sel = sel"
    and once: "occurrences (toLowerCase A @ sel @ toLowerCase B) sel = 1"
    and ins: "ins = K @ ''as'' @ V" "toLowerCase ins = ins" "K \<noteq> []" "hd K = CHR '',''"
      "CHR '','' \<notin> set V"
  shows "\<not> includesStr (A @ sel @ K @ ''AS'' @ V @ B) (sel @ ins)"
proof
  assume "includesStr (A @ sel @ K @ ''AS'' @ V @ B) (sel @ ins)"
  then obtain P S where ps: "A @ sel @ K @ ''AS'' @ V @ B = P @ (sel @ ins) @ S"
    using includesStr_iff by blast
  have hy: "toLowerCase B \<noteq> []" "isWhiteSpace (hd (toLowerCase B))"
    using wsFromAt_nonempty [OF y] by simp_all
  have hi: "ins \<noteq> []" "hd ins = CHR '',''" using ins(1) ins(3) ins(4) by simp_all
  have low: "toLowerCase (sel @ ins) = sel @ ins" using lsel ins(2) by (simp add: toLowerCase_append)
  have nA: "CHR ''A'' \<notin> set (sel @ ins)" and nS: "CHR ''S'' \<notin> set (sel @ ins)"
    using lower_no_upper [OF low] by simp_all
  have uniq: "X1 = toLowerCase A \<and> Y1 = toLowerCase B"
    if "toLowerCase A @ sel @ toLowerCase B = X1 @ sel @ Y1" for X1 Y1
    using occurrences_unique [OF once that refl] by simp
  have "(A @ sel @ K) @ CHR ''A'' # (CHR ''S'' # V @ B) = P @ (sel @ ins) @ S" using ps by simp
  then consider S' where "A @ sel @ K = P @ (sel @ ins) @ S'"
    | P' where "CHR ''S'' # V @ B = P' @ (sel @ ins) @ S"
    using infix_avoiding_char [OF _ nA] by blast
  then show False
  proof cases
    case 1
    have "length (A @ sel @ K) = length (P @ (sel @ ins) @ S')" using 1 by simp
    then have lt: "length P < length A" using ins(1) by simp
    obtain u where u: "(A = P @ u \<and> u @ sel @ K = (sel @ ins) @ S') \<or>
        (A @ u = P \<and> sel @ K = u @ (sel @ ins) @ S')"
      using 1 append_eq_append_conv2 [of A "sel @ K" P "(sel @ ins) @ S'"] by blast
    have "\<not> (A @ u = P \<and> sel @ K = u @ (sel @ ins) @ S')" using lt by auto
    then have a: "A = P @ u" "u @ sel @ K = (sel @ ins) @ S'" using u by blast+
    have "take (length sel) ((u @ sel) @ K) = sel" using a(2) by simp
    then have "take (length sel) (u @ sel) = sel" by simp
    then have "u @ sel = sel @ drop (length sel) (u @ sel)"
      by (metis append_take_drop_id)
    then obtain T where T: "u @ sel = sel @ T" by blast
    have "A @ sel = P @ sel @ T" using a(1) T by simp
    then have "toLowerCase (A @ sel) = toLowerCase (P @ sel @ T)" by simp
    then have "toLowerCase A @ sel = toLowerCase P @ sel @ toLowerCase T"
      using lsel by (simp add: toLowerCase_append)
    then have "toLowerCase A @ sel @ toLowerCase B
        = toLowerCase P @ sel @ (toLowerCase T @ toLowerCase B)" by simp
    then have "toLowerCase P = toLowerCase A" using uniq by blast
    then have "length P = length A" by (metis length_map toLowerCase_def)
    then show False using lt by simp
  next
    case 2
    then have "[] @ CHR ''S'' # (V @ B) = P' @ (sel @ ins) @ S" by simp
    then have "(\<exists>S'. [] = P' @ (sel @ ins) @ S') \<or> (\<exists>P''. V @ B = P'' @ (sel @ ins) @ S)"
      using nS by (rule infix_avoiding_char)
    then obtain P'' where p: "V @ B = P'' @ (sel @ ins) @ S" using ne by auto
    have inB: False if b: "B = u @ sel @ ins @ S" for u
    proof -
      have "toLowerCase B = toLowerCase u @ sel @ toLowerCase (ins @ S)"
        unfolding b using lsel by (simp add: toLowerCase_append)
      then have "toLowerCase A @ sel @ toLowerCase B
        = (toLowerCase A @ sel @ toLowerCase u) @ sel @ toLowerCase (ins @ S)" by simp
      then have "toLowerCase A @ sel @ toLowerCase u = toLowerCase A" using uniq by blast
      then show False using ne by simp
    qed
    have atB: False if b: "B = ins @ S'" for S'
    proof -
      have "toLowerCase B = ins @ toLowerCase S'"
        unfolding b using ins(2) by (simp add: toLowerCase_append)
      then have "hd (toLowerCase B) = CHR '',''" using hi by simp
      then show False using hy(2) by (simp add: isWhiteSpace_def)
    qed
    obtain u where u: "(V = P'' @ u \<and> u @ B = (sel @ ins) @ S) \<or>
        (V @ u = P'' \<and> B = u @ (sel @ ins) @ S)"
      using p append_eq_append_conv2 [of V B P'' "(sel @ ins) @ S"] by blast
    then show False
    proof
      assume "V @ u = P'' \<and> B = u @ (sel @ ins) @ S"
      then show False using inB [of u] by simp
    next
      assume a: "V = P'' @ u \<and> u @ B = (sel @ ins) @ S"
      then have "u @ B = sel @ ins @ S" by simp
      then obtain v where v: "(u = sel @ v \<and> v @ B = ins @ S) \<or> (u @ v = sel \<and> B = v @ ins @ S)"
        using append_eq_append_conv2 [of u B sel "ins @ S"] by blast
      then show False
      proof
        assume b: "u = sel @ v \<and> v @ B = ins @ S"
        show False
        proof (cases v)
          case Nil
          then show False using b atB [of S] by simp
        next
          case (Cons d v')
          then have "d = CHR '',''" using b hi by (cases ins) auto
          then have "CHR '','' \<in> set V" using a b Cons by auto
          then show False using ins(5) by simp
        qed
      next
        assume b: "u @ v = sel \<and> B = v @ ins @ S"
        show False
        proof (cases "v = []")
          case True
          then show False using b atB [of S] by simp
        next
          case False
          have "toLowerCase (u @ v) = u @ v" using b lsel by simp
          then have lv: "toLowerCase v = v"
            by (metis append_Nil2 toLowerCase_infix)
          have yb: "toLowerCase B = v @ ins @ toLowerCase S"
            using b lv ins(2) by (simp add: toLowerCase_append)
          have "wsFromAt (v @ ins @ toLowerCase S)" using y yb by simp
          moreover have "ins @ toLowerCase S \<noteq> []" using hi by simp
          moreover have "\<not> isWhiteSpace (hd (ins @ toLowerCase S))"
            using hi by (simp add: isWhiteSpace_def)
          moreover have "hd (ins @ toLowerCase S) \<notin> set ''from''" using hi by simp
          ultimately have "wsFromAt (v @ toLowerCase B)" by (rule wsFromAt_prefix)
          moreover have "lazyToWsFrom (u @ v @ toLowerCase B) = Some (u @ v)"
            using lz b by (metis append.assoc)
          ultimately show False using lazy_no_stop False by blast
        qed
      qed
    qed
  qed
qed

subsection \<open>The second pass\<close>

text \<open>
  C2, amended. Applying the rewriter twice gives the same string as applying it once for
  every statement whose projection list, as the SELECT pattern finds it in the lowercased
  statement, contains no dollar sign and occurs exactly once in the lowercased statement.
  When the first pass rewrites such a statement, the replacement lands on the projection
  list; the second pass finds the enlarged projection list, and either it contains the
  aggregate text found in the ORDER BY expression or it does not occur in the statement as
  written, so nothing is replaced.
\<close>

theorem rewriter_second_pass:
  assumes s: "selectMatch (toLowerCase q) = Some sel"
    and dollar: "CHR 0x24 \<notin> set sel"
    and once: "occurrences (toLowerCase q) sel = 1"
  shows "modifySqlQueryForCharting (modifySqlQueryForCharting q) = modifySqlQueryForCharting q"
proof (cases "modifySqlQueryForCharting q = q")
  case True
  then show ?thesis by simp
next
  case False
  obtain e agg name sel' where b: "orderByMatch (toLowerCase q) = Some e"
    "aggregateMatch (trim e) = Some (agg, name)"
    "selectMatch (toLowerCase q) = Some sel'" "sel' \<noteq> []"
    "modifySqlQueryForCharting q
       = replaceStr q sel' (sel' @ '', '' @ agg @ '' AS '' @ name @ ''_value'')"
    by (rule rewrite_branch [OF False]) blast
  have same: "sel' = sel" using b(3) s by simp
  have ne: "sel \<noteq> []" using b(4) same by simp
  let ?r = "modifySqlQueryForCharting q"
  have r: "?r = replaceStr q sel (sel @ '', '' @ agg @ '' AS '' @ name @ ''_value'')"
    using b(5) same by simp
  have n: "name \<in> set aggregateNames" using b(2) by (rule aggregateMatch_SomeD(1))
  obtain w where w: "agg = name @ w @ ''(''" "\<forall>c \<in> set w. isWhiteSpace c"
    using aggregateMatch_SomeD(2) [OF b(2)] by blast
  have "set agg \<subseteq> set e" using aggregateMatch_SomeD(3) [OF b(2)] trim_subset [of e] by simp
  then have "\<forall>c \<in> set agg. \<not> isLineTerminator c" using orderByMatch_chars [OF b(1)] by auto
  then have wl: "\<forall>c \<in> set w. \<not> isLineTerminator c" using w(1) by simp
  define ins where "ins = '', '' @ (name @ w @ ''('') @ '' as '' @ name @ ''_value''"
  note t = appended_text [OF n w(2) wl ins_def]
  obtain A B where ab: "splitAtFirst sel q = Some (A, B)"
  proof (cases "splitAtFirst sel q")
    case None
    then have "?r = q" using r by (simp add: replaceStr_def)
    then show ?thesis using False by simp
  next
    case (Some fb)
    then show ?thesis using that by (cases fb) simp
  qed
  have q: "q = A @ sel @ B" using ab by (rule splitAtFirst_sound)
  have d: "CHR 0x24 \<notin> set (sel @ '', '' @ (name @ w @ ''('') @ '' AS '' @ name @ ''_value'')"
    using dollar t(7) by simp
  have r': "?r = A @ (sel @ '', '' @ (name @ w @ ''('') @ '' AS '' @ name @ ''_value'') @ B"
    unfolding r w(1) using ab getSubstitution_plain [OF d] by (simp add: replaceStr_def w(1))
  have le: "last ins = CHR ''e''" by (rule t(5))
  have ls: "\<not> isWhiteSpace (last ins)" unfolding le by (simp add: isWhiteSpace_def)
  obtain X0 Y0 where z: "toLowerCase q = X0 @ sel @ Y0" "wsFromAt Y0"
    "selectMatch (X0 @ sel @ ins @ Y0) = Some (sel @ ins)"
    "lazyToWsFrom (sel @ Y0) = Some sel"
    by (rule selectMatch_insert [OF s ne t(1) t(2) t(3) t(4) ls]) blast
  have lsel: "toLowerCase sel = sel" using z(1) by (rule toLowerCase_infix)
  have lq: "toLowerCase q = toLowerCase A @ sel @ toLowerCase B"
    using q lsel by (metis toLowerCase_append)
  have u1: "X0 = toLowerCase A \<and> Y0 = toLowerCase B"
    using once z(1) lq by (rule occurrences_unique)
  have "toLowerCase ?r = toLowerCase A @ toLowerCase sel
      @ toLowerCase ('', '' @ (name @ w @ ''('') @ '' AS '' @ name @ ''_value'') @ toLowerCase B"
    unfolding r' by (simp only: toLowerCase_append append_assoc)
  then have lr: "toLowerCase ?r = X0 @ sel @ ins @ Y0" using t(6) lsel u1 by simp
  have sm: "selectMatch (toLowerCase ?r) = Some (sel @ ins)" using z(3) lr by simp
  have lz: "lazyToWsFrom (sel @ toLowerCase B) = Some sel" using z(4) u1 by simp
  have yb: "wsFromAt (toLowerCase B)" using z(2) u1 by simp
  have once': "occurrences (toLowerCase A @ sel @ toLowerCase B) sel = 1" using once lq by simp
  have k: "ins = ('', '' @ (name @ w @ ''('') @ '' '') @ ''as'' @ ('' '' @ name @ ''_value'')"
    by (simp add: ins_def)
  have "\<not> includesStr (A @ sel @ ('', '' @ (name @ w @ ''('') @ '' '') @ ''AS''
      @ ('' '' @ name @ ''_value'') @ B) (sel @ ins)"
    using lz yb ne lsel once' k t(9) _ _ t(8) by (rule no_second_occurrence) simp_all
  then have absent: "\<not> includesStr ?r (sel @ ins)" unfolding r' by simp
  show ?thesis
  proof (rule ccontr)
    assume c: "modifySqlQueryForCharting ?r \<noteq> ?r"
    obtain e2 agg2 name2 sel2 where b2: "selectMatch (toLowerCase ?r) = Some sel2"
      "modifySqlQueryForCharting ?r
         = replaceStr ?r sel2 (sel2 @ '', '' @ agg2 @ '' AS '' @ name2 @ ''_value'')"
      by (rule rewrite_branch [OF c]) blast
    have "sel2 = sel @ ins" using b2(1) sm by simp
    then have "modifySqlQueryForCharting ?r = ?r"
      using b2(2) absent by (simp add: replaceStr_absent)
    then show False using c by simp
  qed
qed

text \<open>
  The statement of the specification meets both conditions, its first pass rewrites it,
  and its second pass changes nothing.
\<close>

lemma second_pass_instance:
  "selectMatch (toLowerCase ''SELECT name FROM customers ORDER BY SUM(amount) DESC'') = Some ''name''"
  "CHR 0x24 \<notin> set ''name''"
  "occurrences (toLowerCase ''SELECT name FROM customers ORDER BY SUM(amount) DESC'') ''name'' = 1"
  "modifySqlQueryForCharting ''SELECT name FROM customers ORDER BY SUM(amount) DESC''
     = ''SELECT name, sum( AS sum_value FROM customers ORDER BY SUM(amount) DESC''"
  by code_simp+

theorem rewriter_second_pass_witness:
  "modifySqlQueryForCharting ''SELECT name FROM customers ORDER BY SUM(amount) DESC''
     = ''SELECT name, sum( AS sum_value FROM customers ORDER BY SUM(amount) DESC''
   \<and> modifySqlQueryForCharting
       ''SELECT name, sum( AS sum_value FROM customers ORDER BY SUM(amount) DESC''
     = ''SELECT name, sum( AS sum_value FROM customers ORDER BY SUM(amount) DESC''"
  using rewriter_second_pass [of "''SELECT name FROM customers ORDER BY SUM(amount) DESC''"
      "''name''"]
    second_pass_instance
  by simp

text \<open>
  The condition on the dollar sign cannot be dropped. In a replacement text, a dollar sign
  followed by an apostrophe stands for the text after the match. With that pair in the
  projection list, which here occurs once, the first pass copies the rest of the statement
  into the projection list, and the second pass appends the alias again.
\<close>

lemma rewriter_dollar_pattern:
  "selectMatch (toLowerCase (''SELECT a$'' @ [CHR 0x27] @ '' FROM t ORDER BY SUM(x) DESC''))
     = Some (''a$'' @ [CHR 0x27])"
  "occurrences (toLowerCase (''SELECT a$'' @ [CHR 0x27] @ '' FROM t ORDER BY SUM(x) DESC''))
     (''a$'' @ [CHR 0x27]) = 1"
  "modifySqlQueryForCharting (''SELECT a$'' @ [CHR 0x27] @ '' FROM t ORDER BY SUM(x) DESC'')
     = ''SELECT a FROM t ORDER BY SUM(x) DESC, sum( AS sum_value FROM t ORDER BY SUM(x) DESC''"
  "modifySqlQueryForCharting
       ''SELECT a FROM t ORDER BY SUM(x) DESC, sum( AS sum_value FROM t ORDER BY SUM(x) DESC''
     = ''SELECT a, sum( AS sum_value FROM t ORDER BY SUM(x) DESC, sum( AS sum_value FROM t ORDER BY SUM(x) DESC''"
  "modifySqlQueryForCharting (modifySqlQueryForCharting
       (''SELECT a$'' @ [CHR 0x27] @ '' FROM t ORDER BY SUM(x) DESC''))
     \<noteq> modifySqlQueryForCharting (''SELECT a$'' @ [CHR 0x27] @ '' FROM t ORDER BY SUM(x) DESC'')"
  by code_simp+

text \<open>
  Nor can the condition on the occurrences: in the statement for which the second pass
  adds the alias again, the projection list holds no dollar sign and occurs twice in the
  lowercased statement, the second time inside the table name.
\<close>

lemma projection_list_occurs_twice:
  "selectMatch (toLowerCase ''SELECT Name FROM names ORDER BY COUNT(*) DESC'') = Some ''name''"
  "CHR 0x24 \<notin> set ''name''"
  "occurrences (toLowerCase ''SELECT Name FROM names ORDER BY COUNT(*) DESC'') ''name'' = 2"
  by code_simp+

section \<open>The chart data transformer\<close>

lemma mapProp_defined:
  "\<forall>r \<in> set rows. r \<noteq> JUndefined \<and> r \<noteq> JNull \<Longrightarrow>
   mapProp rows k = Inr (map (\<lambda>r. readProp r k) rows)"
  by (induction rows) (auto simp: getProp_def)

text \<open>
  The loop finds, for each role that is still unassigned, the first key of the wanted
  type; a role that is assigned keeps its key.
\<close>

lemma classify_find:
  "classify r ks (l, v) =
     (if l = None then find (\<lambda>k. typeof (readProp r k) = ''string'') ks else l,
      if v = None then find (\<lambda>k. typeof (readProp r k) = ''number'') ks else v)"
proof (induction ks arbitrary: l v)
  case Nil
  then show ?case by simp
next
  case (Cons k ks)
  show ?case
    by (cases l; cases v) (auto simp: classifyStep_def Cons.IH)
qed

lemma classify_done:
  "fst c \<noteq> None \<Longrightarrow> snd c \<noteq> None \<Longrightarrow> classify r ks c = c"
  by (cases ks; cases c) (auto simp: classifyStep_def)

lemma classify_stops:
  "fst (classify r pre c) \<noteq> None \<and> snd (classify r pre c) \<noteq> None \<Longrightarrow>
   classify r (pre @ post) c = classify r pre c"
proof (induction pre arbitrary: c)
  case Nil
  then show ?case by (simp add: classify_done)
next
  case (Cons k pre)
  then show ?case by (simp add: Let_def split: if_splits)
qed

lemma scan_roles_differ:
  "firstKeyWithType ''string'' row = Some a \<Longrightarrow> firstKeyWithType ''number'' row \<noteq> Some a"
  by (auto simp: firstKeyWithType_def find_Some_iff)

lemma fallback_spec:
  "fallbackColumns (map fst row)
       (firstKeyWithType ''string'' row, firstKeyWithType ''number'' row)
     = (specLabelColumn row, specValueColumn row)"
  by (cases row; cases "tl row")
     (auto simp: fallbackColumns_def specLabelColumn_def specValueColumn_def split: option.splits)

lemma classify_first_row:
  "classify (JObject row) (map fst row) (None, None) =
     (firstKeyWithType ''string'' row, firstKeyWithType ''number'' row)"
  by (simp add: classify_find firstKeyWithType_def)

lemma transform_rows:
  assumes "\<forall>r \<in> set others. \<exists>kvs. r = JObject kvs"
  shows "transformDataForChart (JArray (JObject row # others)) =
     (case (specLabelColumn row, specValueColumn row) of
        (Some l, Some v) \<Rightarrow> Inr (Some (barChart l v (JObject row # others)))
      | _ \<Rightarrow> Inr None)"
proof -
  have d: "\<forall>r \<in> set (JObject row # others). r \<noteq> JUndefined \<and> r \<noteq> JNull"
    using assms by auto
  show ?thesis
    unfolding transformDataForChart_def
    by (simp add: classify_first_row fallback_spec mapProp_defined [OF d] barChart_def
        split: option.splits del: mapProp.simps)
qed

text \<open>
  C4, as the claim states it, fails where the scan assigns one role and the fallback the
  other: in the rows \<open>[{year: 2020, total: 5}, {year: 2021, total: 7}]\<close> no value is a
  string, so the scan leaves the label unassigned and takes \<open>year\<close> as value column. The
  fallback then gives the label role the first key, \<open>year\<close>, and leaves the value role as
  it is: the second key does not become the value, and \<open>year\<close> serves both roles.
\<close>

theorem two_numeric_columns:
  "classify (JObject [(''year'', JNumber 2020), (''total'', JNumber 5)]) [''year'', ''total'']
       (None, None) = (None, Some ''year'')
   \<and> fallbackColumns [''year'', ''total''] (None, Some ''year'') = (Some ''year'', Some ''year'')
   \<and> transformDataForChart
       (JArray [JObject [(''year'', JNumber 2020), (''total'', JNumber 5)],
                JObject [(''year'', JNumber 2021), (''total'', JNumber 7)]]) =
     Inr (Some \<lparr>type = ''bar'', labels = [JNumber 2020, JNumber 2021],
        datasets = [\<lparr>label = ''year'', data = [JNumber 2020, JNumber 2021],
          backgroundColor = ''rgba(75, 192, 192, 0.6)'',
          borderColor = ''rgba(75, 192, 192, 1)'', borderWidth = 1\<rparr>]\<rparr>)"
  by (simp add: transformDataForChart_def fallbackColumns_def classifyStep_def getProp_def)

text \<open>
  C4, amended. For a non-empty sequence of row-mappings (a first row \<open>row\<close> and further
  rows \<open>others\<close>, all of them objects): the loop over the keys of the first row assigns the
  first key whose value is a string as label column and the first key whose value is a
  number as value column; no key gets both roles in the scan; a scan that has found both
  after the keys \<open>pre\<close> is not changed by any further keys \<open>post\<close>; the fallback gives each
  role that is still unassigned its own key, when that key exists: the label the first
  declared key, the value the second declared key, while a role that the scan assigned
  keeps its key; the columns depend on the first row only, and the function returns
  \<open>null\<close> exactly when a role is unassigned after the fallback (otherwise the series of
  the two columns).
\<close>

theorem column_classification:
  assumes "\<forall>r \<in> set others. \<exists>kvs. r = JObject kvs"
  shows "classify (JObject row) (map fst row) (None, None) =
           (firstKeyWithType ''string'' row, firstKeyWithType ''number'' row)
       \<and> (\<forall>k. firstKeyWithType ''string'' row = Some k \<longrightarrow>
                firstKeyWithType ''number'' row \<noteq> Some k)
       \<and> (fst (classify (JObject row) pre (None, None)) \<noteq> None \<and>
          snd (classify (JObject row) pre (None, None)) \<noteq> None \<longrightarrow>
          classify (JObject row) (pre @ post) (None, None) =
            classify (JObject row) pre (None, None))
       \<and> fallbackColumns (map fst row)
            (firstKeyWithType ''string'' row, firstKeyWithType ''number'' row)
           = (specLabelColumn row, specValueColumn row)
       \<and> transformDataForChart (JArray (JObject row # others)) =
           (case (specLabelColumn row, specValueColumn row) of
              (Some l, Some v) \<Rightarrow> Inr (Some (barChart l v (JObject row # others)))
            | _ \<Rightarrow> Inr None)
       \<and> (transformDataForChart (JArray (JObject row # others)) = Inr None) =
           (specLabelColumn row = None \<or> specValueColumn row = None)"
proof -
  have t: "transformDataForChart (JArray (JObject row # others)) =
     (case (specLabelColumn row, specValueColumn row) of
        (Some l, Some v) \<Rightarrow> Inr (Some (barChart l v (JObject row # others)))
      | _ \<Rightarrow> Inr None)"
    using assms by (rule transform_rows)
  have n: "(transformDataForChart (JArray (JObject row # others)) = Inr None) =
           (specLabelColumn row = None \<or> specValueColumn row = None)"
    unfolding t by (simp split: option.splits)
  show ?thesis
    using t n classify_first_row [of row] fallback_spec [of row]
      classify_stops [of "JObject row" pre "(None, None)" post] scan_roles_differ [of row]
    by blast
qed

theorem column_classification_witness:
  "classify (JObject [(''id'', JNull), (''customerName'', JString ''Alice''), (''total'', JNumber 500)])
       [''id'', ''customerName'', ''total''] (None, None) = (Some ''customerName'', Some ''total'')
   \<and> transformDataForChart
       (JArray [JObject [(''id'', JNull), (''customerName'', JString ''Alice''), (''total'', JNumber 500)],
                JObject [(''id'', JNull), (''customerName'', JString ''Bob''), (''total'', JNumber 300)]])
       = Inr (Some (barChart ''customerName'' ''total''
           [JObject [(''id'', JNull), (''customerName'', JString ''Alice''), (''total'', JNumber 500)],
            JObject [(''id'', JNull), (''customerName'', JString ''Bob''), (''total'', JNumber 300)]]))
   \<and> transformDataForChart (JArray [JObject [(''flag'', JBoolean True)]]) = Inr None"
  using column_classification
      [of "[JObject [(''id'', JNull), (''customerName'', JString ''Bob''), (''total'', JNumber 300)]]"
          "[(''id'', JNull), (''customerName'', JString ''Alice''), (''total'', JNumber 500)]"
          "[]" "[]"]
    column_classification [of "[]" "[(''flag'', JBoolean True)]" "[]" "[]"]
  by (simp add: firstKeyWithType_def specLabelColumn_def specValueColumn_def)

lemma chart_example:
  "transformDataForChart
     (JArray [JObject [(''customerName'', JString ''Alice''), (''total'', JNumber 500)],
              JObject [(''customerName'', JString ''Bob''), (''total'', JNumber 300)]]) =
   Inr (Some \<lparr>type = ''bar'', labels = [JString ''Alice'', JString ''Bob''],
      datasets = [\<lparr>label = ''total'', data = [JNumber 500, JNumber 300],
        backgroundColor = ''rgba(75, 192, 192, 0.6)'',
        borderColor = ''rgba(75, 192, 192, 1)'', borderWidth = 1\<rparr>]\<rparr>)"
  by (simp add: transformDataForChart_def fallbackColumns_def classifyStep_def getProp_def)

lemma chart_not_array:
  "(\<forall>rows. d \<noteq> JArray rows) \<Longrightarrow> transformDataForChart d = Inr None"
  by (cases d) (auto simp: transformDataForChart_def)

lemma chart_empty: "transformDataForChart (JArray []) = Inr None"
  by (simp add: transformDataForChart_def)

text \<open>
  C5, as the claim states it, fails for an array whose elements are not row-mappings:
  for the one-element array \<open>["ab"]\<close> the keys of the string \<open>"ab"\<close> are \<open>"0"\<close> and \<open>"1"\<close>,
  and the function returns a series, not \<open>null\<close>; so it does for \<open>[[1, 2]]\<close>, an array of
  arrays.
\<close>

theorem chart_transform_string_rows:
  "transformDataForChart (JArray [JString ''ab'']) =
     Inr (Some \<lparr>type = ''bar'', labels = [JString ''a''],
        datasets = [\<lparr>label = ''1'', data = [JString ''b''],
          backgroundColor = ''rgba(75, 192, 192, 0.6)'',
          borderColor = ''rgba(75, 192, 192, 1)'', borderWidth = 1\<rparr>]\<rparr>)
   \<and> transformDataForChart (JArray [JArray [JNumber 1, JNumber 2]]) =
     Inr (Some \<lparr>type = ''bar'', labels = [JNumber 1],
        datasets = [\<lparr>label = ''0'', data = [JNumber 1],
          backgroundColor = ''rgba(75, 192, 192, 0.6)'',
          borderColor = ''rgba(75, 192, 192, 1)'', borderWidth = 1\<rparr>]\<rparr>)"
  by (simp add: transformDataForChart_def fallbackColumns_def classifyStep_def getProp_def
      indexKeys_def digitChar_def)

text \<open>
  C5, amended. For the rows \<open>[{customerName: "Alice", total: 500}, {customerName: "Bob",
  total: 300}]\<close> the function returns a series of kind \<open>bar\<close> with the labels \<open>["Alice",
  "Bob"]\<close> and exactly one dataset, whose data is \<open>[500, 300]\<close>; for the empty array, and for
  every input that is not an array, it returns \<open>null\<close>.
\<close>

theorem chart_transform_examples:
  "transformDataForChart
     (JArray [JObject [(''customerName'', JString ''Alice''), (''total'', JNumber 500)],
              JObject [(''customerName'', JString ''Bob''), (''total'', JNumber 300)]]) =
   Inr (Some \<lparr>type = ''bar'', labels = [JString ''Alice'', JString ''Bob''],
      datasets = [\<lparr>label = ''total'', data = [JNumber 500, JNumber 300],
        backgroundColor = ''rgba(75, 192, 192, 0.6)'',
        borderColor = ''rgba(75, 192, 192, 1)'', borderWidth = 1\<rparr>]\<rparr>)
   \<and> transformDataForChart (JArray []) = Inr None
   \<and> ((\<forall>rows. d \<noteq> JArray rows) \<longrightarrow> transformDataForChart d = Inr None)"
  using chart_example chart_empty chart_not_array [of d] by blast

theorem chart_transform_examples_witness:
  "transformDataForChart (JArray []) = Inr None
   \<and> transformDataForChart (JObject [(''customerName'', JString ''Alice'')]) = Inr None
   \<and> transformDataForChart JNull = Inr None"
  using chart_transform_examples [of "JObject [(''customerName'', JString ''Alice'')]"]
    chart_transform_examples [of JNull]
  by simp

text \<open>
  C10, as the claim states it, fails where a later row holds a value that is not a
  number: for the rows \<open>[{n: 5}, {n: null}]\<close> the labels and the data are \<open>[5, null]\<close>.
\<close>

theorem single_numeric_column_null_row:
  "transformDataForChart (JArray [JObject [(''n'', JNumber 5)], JObject [(''n'', JNull)]]) =
     Inr (Some \<lparr>type = ''bar'', labels = [JNumber 5, JNull],
        datasets = [\<lparr>label = ''n'', data = [JNumber 5, JNull],
          backgroundColor = ''rgba(75, 192, 192, 0.6)'',
          borderColor = ''rgba(75, 192, 192, 1)'', borderWidth = 1\<rparr>]\<rparr>)
   \<and> typeof JNull \<noteq> ''number''"
  by (simp add: transformDataForChart_def fallbackColumns_def classifyStep_def getProp_def)

text \<open>
  C10, amended. When every row has exactly one key and the value of the first row's key
  \<open>k\<close> is a number, the function returns a series in which \<open>k\<close> is both the label column
  and the value column: the labels and the data of the one dataset are the same sequence,
  the value of each row under \<open>k\<close>. Its first element is the number of the first row; the
  later rows are not inspected, and the sequence is numeric when each of them holds a
  number under \<open>k\<close>.
\<close>

theorem single_numeric_column:
  assumes "\<forall>r \<in> set others. \<exists>k' v. r = JObject [(k', v)]"
  shows "transformDataForChart (JArray (JObject [(k, JNumber x)] # others)) =
     Inr (Some \<lparr>type = ''bar'',
        labels = JNumber x # map (\<lambda>r. readProp r k) others,
        datasets = [\<lparr>label = (if k = [] then ''Value'' else k),
          data = JNumber x # map (\<lambda>r. readProp r k) others,
          backgroundColor = ''rgba(75, 192, 192, 0.6)'',
          borderColor = ''rgba(75, 192, 192, 1)'', borderWidth = 1\<rparr>]\<rparr>)
     \<and> ((\<forall>r \<in> set others. typeof (readProp r k) = ''number'') \<longrightarrow>
          (\<forall>v \<in> set (JNumber x # map (\<lambda>r. readProp r k) others). typeof v = ''number''))"
proof -
  have "\<forall>r \<in> set (JObject [(k, JNumber x)] # others). r \<noteq> JUndefined \<and> r \<noteq> JNull"
    using assms by auto
  then have m: "mapProp (JObject [(k, JNumber x)] # others) k =
      Inr (map (\<lambda>r. readProp r k) (JObject [(k, JNumber x)] # others))"
    by (rule mapProp_defined)
  show ?thesis
    using m by (simp add: transformDataForChart_def fallbackColumns_def classifyStep_def)
qed

theorem single_numeric_column_witness:
  "transformDataForChart (JArray [JObject [(''n'', JNumber 5)], JObject [(''n'', JNumber 7)]]) =
     Inr (Some \<lparr>type = ''bar'', labels = [JNumber 5, JNumber 7],
        datasets = [\<lparr>label = ''n'', data = [JNumber 5, JNumber 7],
          backgroundColor = ''rgba(75, 192, 192, 0.6)'',
          borderColor = ''rgba(75, 192, 192, 1)'', borderWidth = 1\<rparr>]\<rparr>)"
  using single_numeric_column [of "[JObject [(''n'', JNumber 7)]]" "''n''" 5]
  by simp

section \<open>The sample collaborators, evaluated\<close>

lemma sample_sql:
  "getSqlQueryFromGemini (sampleEnv decision rows) q schemaText
     = Inr ''SELECT customerName, total FROM sales''"
  by (simp add: getSqlQueryFromGemini_def sampleEnv_def sampleModel_def codeFence_def trim_def
      isWhiteSpace_def)

lemma sample_sql_kept:
  "modifySqlQueryForCharting ''SELECT customerName, total FROM sales''
     = ''SELECT customerName, total FROM sales''"
  by code_simp

lemma sample_mandatory:
  "mandatoryStages (sampleEnv decision (Inr sampleRows)) q =
     ([SchemaFetch, SqlGeneration, SqlExecution, Summarization],
      Inr (''SELECT customerName, total FROM sales'', sampleRows,
           ''Alice has 500 and Bob has 300. ''))"
proof -
  have c: "getTableAndColumnNames (sampleEnv decision (Inr sampleRows)) =
      Inr (groupColumns sampleCatalog [])"
    by (simp add: getTableAndColumnNames_def sampleEnv_def)
  have r: "queryRawUnsafe (sampleEnv decision (Inr sampleRows)) = (\<lambda>sql. Inr sampleRows)"
    by (simp add: sampleEnv_def)
  have n: "convertBigIntToString sampleRows = sampleRows" "\<not> hasBigInt sampleRows"
    by (simp_all add: sampleRows_def)
  have g: "\<And>p. generateContent (sampleEnv decision (Inr sampleRows)) Summarization p =
      Inr ''Alice has 500 and Bob has 300. ''"
    by (simp add: sampleEnv_def sampleModel_def)
  show ?thesis
    unfolding mandatoryStages_def c
    by (simp add: sample_sql sample_sql_kept r n g)
qed

lemma sample_keyword:
  "mentionsChartKeyword ''plot total sales by customer''"
  "\<not> mentionsChartKeyword ''show me total sales by customer''"
  by (simp_all add: mentionsChartKeyword_def toLowerCase_def toLowerChar_def)

lemma sample_yes: "toUpperCase (trim ('' yes'' @ [CHR 0x0A])) = ''YES''"
  by (simp add: toUpperCase_def toUpperChar_def trim_def isWhiteSpace_def)

section \<open>The chart decision\<close>

lemma containsChartKeyword_iff: "containsChartKeyword q = mentionsChartKeyword q"
  by (simp add: containsChartKeyword_def chartKeywords_def mentionsChartKeyword_def)

lemma decision_keyword:
  "mentionsChartKeyword q \<Longrightarrow> chartDecision env q = ([], True)"
  by (simp add: chartDecision_def containsChartKeyword_iff)

lemma decision_model:
  "\<not> mentionsChartKeyword q \<Longrightarrow> generateContent env ChartDecision (chartPrompt q) = Inr text \<Longrightarrow>
   chartDecision env q = ([ChartDecision], toUpperCase (trim text) = ''YES'')"
  by (simp add: chartDecision_def containsChartKeyword_iff shouldGenerateChart_def)

lemma decision_failure:
  "\<not> mentionsChartKeyword q \<Longrightarrow> generateContent env ChartDecision (chartPrompt q) = Inl e \<Longrightarrow>
   chartDecision env q = ([ChartDecision], False)"
  by (simp add: chartDecision_def containsChartKeyword_iff shouldGenerateChart_def)

lemma response_without_chart:
  "q \<noteq> [] \<Longrightarrow> mandatoryStages env q = (trace, Inr (sqlQuery, rows, explanationText)) \<Longrightarrow>
   chartDecision env q = (asked, False) \<Longrightarrow>
   postApiQuery env (Some q) =
     (trace @ asked, \<lparr>status = 200, body = Payload sqlQuery rows (trim explanationText) None\<rparr>)"
  by (simp add: postApiQuery_def pipeline_def)

lemma response_with_chart:
  "q \<noteq> [] \<Longrightarrow> mandatoryStages env q = (trace, Inr (sqlQuery, rows, explanationText)) \<Longrightarrow>
   chartDecision env q = (asked, True) \<Longrightarrow>
   postApiQuery env (Some q) =
     (trace @ asked @ [ChartTransform],
      \<lparr>status = 200, body = Payload sqlQuery rows (trim explanationText)
         (case transformDataForChart rows of Inl e \<Rightarrow> None | Inr chartData \<Rightarrow> chartData)\<rparr>)"
  by (simp add: postApiQuery_def pipeline_def)

lemma response_on_exception:
  "q \<noteq> [] \<Longrightarrow> mandatoryStages env q = (trace, Inl e) \<Longrightarrow>
   postApiQuery env (Some q) = (trace, errorResponse e)"
  by (simp add: postApiQuery_def pipeline_def)

text \<open>
  C6. The chart decision takes the first rule that applies. (1) When the question
  contains one of the keywords chart, plot, graph, visualize (case-insensitive substring),
  the decision is yes and the language model is not asked: no stage is invoked for the
  decision, and after the stages up to the summary the handler goes on to the chart
  transform. (2) Otherwise the model is asked, and the decision is yes exactly when its
  response, trimmed and in upper case, is \<open>YES\<close>. (3) When that call fails, the decision is
  no, and the response is still produced: with the statement, the result and the summary
  of the earlier stages, status 200 and \<open>chart: null\<close>.
\<close>

theorem chart_decision_rules:
  "(mentionsChartKeyword question \<longrightarrow>
        chartDecision env question = ([], True)
        \<and> (\<forall>trace sqlQuery rows explanationText.
              question \<noteq> [] \<and>
              mandatoryStages env question = (trace, Inr (sqlQuery, rows, explanationText)) \<longrightarrow>
              fst (postApiQuery env (Some question)) = trace @ [ChartTransform]))
   \<and> (\<not> mentionsChartKeyword question \<longrightarrow>
        (\<forall>text. generateContent env ChartDecision (chartPrompt question) = Inr text \<longrightarrow>
           chartDecision env question = ([ChartDecision], toUpperCase (trim text) = ''YES'')))
   \<and> (\<not> mentionsChartKeyword question \<longrightarrow>
        (\<forall>e. generateContent env ChartDecision (chartPrompt question) = Inl e \<longrightarrow>
           chartDecision env question = ([ChartDecision], False)
           \<and> (\<forall>trace sqlQuery rows explanationText.
                 question \<noteq> [] \<and>
                 mandatoryStages env question = (trace, Inr (sqlQuery, rows, explanationText)) \<longrightarrow>
                 postApiQuery env (Some question) =
                   (trace @ [ChartDecision],
                    \<lparr>status = 200,
                     body = Payload sqlQuery rows (trim explanationText) None\<rparr>))))"
proof (intro conjI impI allI)
  assume k: "mentionsChartKeyword question"
  then show "chartDecision env question = ([], True)" by (rule decision_keyword)
  fix trace sqlQuery rows explanationText
  assume "question \<noteq> [] \<and>
    mandatoryStages env question = (trace, Inr (sqlQuery, rows, explanationText))"
  then show "fst (postApiQuery env (Some question)) = trace @ [ChartTransform]"
    using response_with_chart [of question env trace sqlQuery rows explanationText "[]"]
      decision_keyword [OF k, of env]
    by simp
next
  fix reply
  assume "\<not> mentionsChartKeyword question"
    and "generateContent env ChartDecision (chartPrompt question) = Inr reply"
  then show "chartDecision env question = ([ChartDecision], toUpperCase (trim reply) = ''YES'')"
    by (rule decision_model)
next
  fix e
  assume n: "\<not> mentionsChartKeyword question"
    and f: "generateContent env ChartDecision (chartPrompt question) = Inl e"
  then show d: "chartDecision env question = ([ChartDecision], False)"
    by (rule decision_failure)
  fix trace sqlQuery rows explanationText
  assume "question \<noteq> [] \<and>
    mandatoryStages env question = (trace, Inr (sqlQuery, rows, explanationText))"
  then show "postApiQuery env (Some question) =
      (trace @ [ChartDecision],
       \<lparr>status = 200, body = Payload sqlQuery rows (trim explanationText) None\<rparr>)"
    using response_without_chart [of question env trace sqlQuery rows explanationText
        "[ChartDecision]"] d
    by simp
qed

theorem chart_decision_rules_witness:
  "chartDecision (sampleEnv (Inr ('' yes'' @ [CHR 0x0A])) (Inr sampleRows))
       ''plot total sales by customer'' = ([], True)
   \<and> chartDecision (sampleEnv (Inr ('' yes'' @ [CHR 0x0A])) (Inr sampleRows))
       ''show me total sales by customer'' = ([ChartDecision], True)
   \<and> chartDecision (sampleEnv (Inl (Error ''quota exceeded'')) (Inr sampleRows))
       ''show me total sales by customer'' = ([ChartDecision], False)
   \<and> postApiQuery (sampleEnv (Inl (Error ''quota exceeded'')) (Inr sampleRows))
       (Some ''show me total sales by customer'') =
       ([SchemaFetch, SqlGeneration, SqlExecution, Summarization, ChartDecision],
        \<lparr>status = 200,
         body = Payload ''SELECT customerName, total FROM sales'' sampleRows
                  ''Alice has 500 and Bob has 300.'' None\<rparr>)"
proof -
  have y: "generateContent (sampleEnv (Inr ('' yes'' @ [CHR 0x0A])) (Inr sampleRows)) ChartDecision
      (chartPrompt ''show me total sales by customer'') = Inr ('' yes'' @ [CHR 0x0A])"
    by (simp add: sampleEnv_def sampleModel_def)
  have f: "generateContent (sampleEnv (Inl (Error ''quota exceeded'')) (Inr sampleRows)) ChartDecision
      (chartPrompt ''show me total sales by customer'') = Inl (Error ''quota exceeded'')"
    by (simp add: sampleEnv_def sampleModel_def)
  have t: "trim ''Alice has 500 and Bob has 300. '' = ''Alice has 500 and Bob has 300.''"
    by (simp add: trim_def isWhiteSpace_def)
  show ?thesis
    using chart_decision_rules
        [of "''plot total sales by customer''" "sampleEnv (Inr ('' yes'' @ [CHR 0x0A])) (Inr sampleRows)"]
      chart_decision_rules
        [of "''show me total sales by customer''"
            "sampleEnv (Inr ('' yes'' @ [CHR 0x0A])) (Inr sampleRows)"]
      chart_decision_rules
        [of "''show me total sales by customer''"
            "sampleEnv (Inl (Error ''quota exceeded'')) (Inr sampleRows)"]
      sample_keyword y f sample_yes
      sample_mandatory [of "Inl (Error ''quota exceeded'')" "''show me total sales by customer''"]
    by (simp add: t)
qed

section \<open>The request guard\<close>

text \<open>
  C8. A request whose body has no \<open>query\<close> field, or an empty one, is answered with status
  400 and the body \<open>{error: "Query is required"}\<close>, and no stage of the pipeline is invoked:
  the list of invoked stages is empty.
\<close>

theorem missing_query_rejected:
  assumes "bodyQuery = None \<or> bodyQuery = Some []"
  shows "postApiQuery env bodyQuery =
           ([], \<lparr>status = 400, body = ErrorBody ''Query is required''\<rparr>)"
  using assms by (auto simp: postApiQuery_def)

theorem missing_query_rejected_witness:
  "postApiQuery
     \<lparr>queryCatalog = Inr [], generateContent = (\<lambda>st p. Inr ''YES''),
      queryRawUnsafe = (\<lambda>q. Inr (JArray [])), jsonStringify = (\<lambda>v. [])\<rparr> None
     = ([], \<lparr>status = 400, body = ErrorBody ''Query is required''\<rparr>)
   \<and> postApiQuery
     \<lparr>queryCatalog = Inr [], generateContent = (\<lambda>st p. Inr ''YES''),
      queryRawUnsafe = (\<lambda>q. Inr (JArray [])), jsonStringify = (\<lambda>v. [])\<rparr> (Some [])
     = ([], \<lparr>status = 400, body = ErrorBody ''Query is required''\<rparr>)"
  using missing_query_rejected [of None] missing_query_rejected [of "Some []"] by simp

section \<open>Fatal and non-fatal failures\<close>

lemma fail_schema:
  "q \<noteq> [] \<Longrightarrow> getTableAndColumnNames env = Inl e \<Longrightarrow>
   postApiQuery env (Some q) = ([SchemaFetch], errorResponse e)"
  by (simp add: postApiQuery_def pipeline_def mandatoryStages_def)

lemma fail_generation:
  "q \<noteq> [] \<Longrightarrow> getTableAndColumnNames env = Inr dbSchemaObj \<Longrightarrow>
   generateContent env SqlGeneration (sqlPrompt q (dbSchemaText dbSchemaObj)) = Inl e \<Longrightarrow>
   postApiQuery env (Some q) =
     ([SchemaFetch, SqlGeneration], errorResponse (Error ''Failed to generate SQL query.''))"
  by (simp add: postApiQuery_def pipeline_def mandatoryStages_def getSqlQueryFromGemini_def)

lemma fail_execution:
  "q \<noteq> [] \<Longrightarrow> getTableAndColumnNames env = Inr dbSchemaObj \<Longrightarrow>
   getSqlQueryFromGemini env q (dbSchemaText dbSchemaObj) = Inr generated \<Longrightarrow>
   queryRawUnsafe env (modifySqlQueryForCharting generated) = Inl e \<Longrightarrow>
   postApiQuery env (Some q) = ([SchemaFetch, SqlGeneration, SqlExecution], errorResponse e)"
  by (simp add: postApiQuery_def pipeline_def mandatoryStages_def)

lemma fail_summary:
  "q \<noteq> [] \<Longrightarrow> getTableAndColumnNames env = Inr dbSchemaObj \<Longrightarrow>
   getSqlQueryFromGemini env q (dbSchemaText dbSchemaObj) = Inr generated \<Longrightarrow>
   queryRawUnsafe env (modifySqlQueryForCharting generated) = Inr raw \<Longrightarrow>
   \<not> hasBigInt (convertBigIntToString raw) \<Longrightarrow>
   generateContent env Summarization
     (explanationPrompt q (modifySqlQueryForCharting generated)
        (jsonStringify env (convertBigIntToString raw))) = Inl e \<Longrightarrow>
   postApiQuery env (Some q) =
     ([SchemaFetch, SqlGeneration, SqlExecution, Summarization], errorResponse e)"
  by (simp add: postApiQuery_def pipeline_def mandatoryStages_def)

lemma mandatory_success:
  "getTableAndColumnNames env = Inr dbSchemaObj \<Longrightarrow>
   getSqlQueryFromGemini env q (dbSchemaText dbSchemaObj) = Inr generated \<Longrightarrow>
   queryRawUnsafe env (modifySqlQueryForCharting generated) = Inr raw \<Longrightarrow>
   \<not> hasBigInt (convertBigIntToString raw) \<Longrightarrow>
   generateContent env Summarization
     (explanationPrompt q (modifySqlQueryForCharting generated)
        (jsonStringify env (convertBigIntToString raw))) = Inr explanationText \<Longrightarrow>
   mandatoryStages env q =
     ([SchemaFetch, SqlGeneration, SqlExecution, Summarization],
      Inr (modifySqlQueryForCharting generated, convertBigIntToString raw, explanationText))"
  by (simp add: mandatoryStages_def)

lemma errorResponse_nonempty:
  "\<exists>m. errorResponse e = \<lparr>status = 500, body = ErrorBody m\<rparr> \<and> m \<noteq> [] \<and>
       (m = message e \<or> m = ''Failed to process query'')"
  by (simp add: errorResponse_def)

lemma delivered:
  "q \<noteq> [] \<Longrightarrow> mandatoryStages env q = (trace, Inr (sqlQuery, rows, explanationText)) \<Longrightarrow>
   \<exists>invoked chart. postApiQuery env (Some q) =
     (invoked, \<lparr>status = 200, body = Payload sqlQuery rows (trim explanationText) chart\<rparr>)"
  by (cases "chartDecision env q") (simp add: postApiQuery_def pipeline_def)

lemma transform_failure:
  "q \<noteq> [] \<Longrightarrow> mandatoryStages env q = (trace, Inr (sqlQuery, rows, explanationText)) \<Longrightarrow>
   transformDataForChart rows = Inl e \<Longrightarrow>
   snd (postApiQuery env (Some q)) =
     \<lparr>status = 200, body = Payload sqlQuery rows (trim explanationText) None\<rparr>"
  by (cases "chartDecision env q") (simp add: postApiQuery_def pipeline_def)

text \<open>
  C9. For a request with a non-empty question: when the schema fetch, the SQL generation,
  the execution or the summarization fails, the response is the error response of that
  failure, after exactly the stages up to the failing one; an error response has status
  500 and nothing but a non-empty error string, which is the failure's message or the
  fallback \<open>Failed to process query\<close> (the failure of the SQL generation is the function's
  own error, \<open>Failed to generate SQL query.\<close>). When these four stages succeed, the response
  has status 200 and delivers the statement, the result and the summary; a failure of the
  model in the chart decision, or an exception of the chart transform, only leaves
  \<open>chart\<close> at \<open>null\<close>.
\<close>

theorem fatal_and_nonfatal_failures:
  assumes "userQuery \<noteq> []"
  shows
    "(\<forall>e. getTableAndColumnNames env = Inl e \<longrightarrow>
        postApiQuery env (Some userQuery) = ([SchemaFetch], errorResponse e))
   \<and> (\<forall>dbSchemaObj e. getTableAndColumnNames env = Inr dbSchemaObj \<and>
        generateContent env SqlGeneration (sqlPrompt userQuery (dbSchemaText dbSchemaObj)) = Inl e \<longrightarrow>
        postApiQuery env (Some userQuery) =
          ([SchemaFetch, SqlGeneration], errorResponse (Error ''Failed to generate SQL query.'')))
   \<and> (\<forall>dbSchemaObj generated e. getTableAndColumnNames env = Inr dbSchemaObj \<and>
        getSqlQueryFromGemini env userQuery (dbSchemaText dbSchemaObj) = Inr generated \<and>
        queryRawUnsafe env (modifySqlQueryForCharting generated) = Inl e \<longrightarrow>
        postApiQuery env (Some userQuery) =
          ([SchemaFetch, SqlGeneration, SqlExecution], errorResponse e))
   \<and> (\<forall>dbSchemaObj generated raw e. getTableAndColumnNames env = Inr dbSchemaObj \<and>
        getSqlQueryFromGemini env userQuery (dbSchemaText dbSchemaObj) = Inr generated \<and>
        queryRawUnsafe env (modifySqlQueryForCharting generated) = Inr raw \<and>
        \<not> hasBigInt (convertBigIntToString raw) \<and>
        generateContent env Summarization
          (explanationPrompt userQuery (modifySqlQueryForCharting generated)
             (jsonStringify env (convertBigIntToString raw))) = Inl e \<longrightarrow>
        postApiQuery env (Some userQuery) =
          ([SchemaFetch, SqlGeneration, SqlExecution, Summarization], errorResponse e))
   \<and> (\<forall>e. \<exists>m. errorResponse e = \<lparr>status = 500, body = ErrorBody m\<rparr> \<and> m \<noteq> [] \<and>
        (m = message e \<or> m = ''Failed to process query''))
   \<and> (\<forall>dbSchemaObj generated raw explanationText. getTableAndColumnNames env = Inr dbSchemaObj \<and>
        getSqlQueryFromGemini env userQuery (dbSchemaText dbSchemaObj) = Inr generated \<and>
        queryRawUnsafe env (modifySqlQueryForCharting generated) = Inr raw \<and>
        \<not> hasBigInt (convertBigIntToString raw) \<and>
        generateContent env Summarization
          (explanationPrompt userQuery (modifySqlQueryForCharting generated)
             (jsonStringify env (convertBigIntToString raw))) = Inr explanationText \<longrightarrow>
        mandatoryStages env userQuery =
          ([SchemaFetch, SqlGeneration, SqlExecution, Summarization],
           Inr (modifySqlQueryForCharting generated, convertBigIntToString raw, explanationText)))
   \<and> (\<forall>trace sqlQuery rows explanationText.
        mandatoryStages env userQuery = (trace, Inr (sqlQuery, rows, explanationText)) \<longrightarrow>
        (\<exists>invoked chart. postApiQuery env (Some userQuery) =
           (invoked, \<lparr>status = 200,
              body = Payload sqlQuery rows (trim explanationText) chart\<rparr>))
        \<and> (\<not> containsChartKeyword userQuery \<and>
            (\<exists>e. generateContent env ChartDecision (chartPrompt userQuery) = Inl e) \<longrightarrow>
            postApiQuery env (Some userQuery) =
              (trace @ [ChartDecision],
               \<lparr>status = 200, body = Payload sqlQuery rows (trim explanationText) None\<rparr>))
        \<and> ((\<exists>e. transformDataForChart rows = Inl e) \<longrightarrow>
            snd (postApiQuery env (Some userQuery)) =
              \<lparr>status = 200, body = Payload sqlQuery rows (trim explanationText) None\<rparr>))"
  apply (intro conjI allI impI)
  subgoal for e using assms by (rule fail_schema)
  subgoal for dbSchemaObj e using assms by (elim conjE) (rule fail_generation)
  subgoal for dbSchemaObj generated e using assms by (elim conjE) (rule fail_execution)
  subgoal for dbSchemaObj generated raw e using assms by (elim conjE) (rule fail_summary)
  subgoal for e by (rule errorResponse_nonempty)
  subgoal for dbSchemaObj generated raw explanationText
    by (elim conjE) (rule mandatory_success)
  subgoal for trace sqlQuery rows explanationText using assms by (rule delivered)
  subgoal for trace sqlQuery rows explanationText
    using assms
    by (elim conjE exE)
       (simp add: postApiQuery_def pipeline_def chartDecision_def shouldGenerateChart_def)
  subgoal for trace sqlQuery rows explanationText
    using assms by (elim exE) (rule transform_failure)
  done

theorem fatal_and_nonfatal_failures_witness:
  "postApiQuery (sampleEnv (Inr ''NO'') (Inl (Error ''You have an error in your SQL syntax'')))
       (Some ''total sales by customer'') =
       ([SchemaFetch, SqlGeneration, SqlExecution],
        \<lparr>status = 500, body = ErrorBody ''You have an error in your SQL syntax''\<rparr>)
   \<and> postApiQuery (sampleEnv (Inr ''NO'') (Inl (Error [])))
       (Some ''total sales by customer'') =
       ([SchemaFetch, SqlGeneration, SqlExecution],
        \<lparr>status = 500, body = ErrorBody ''Failed to process query''\<rparr>)
   \<and> postApiQuery (sampleEnv (Inl (Error ''quota exceeded'')) (Inr sampleRows))
       (Some ''total sales by customer'') =
       ([SchemaFetch, SqlGeneration, SqlExecution, Summarization, ChartDecision],
        \<lparr>status = 200,
         body = Payload ''SELECT customerName, total FROM sales'' sampleRows
                  ''Alice has 500 and Bob has 300.'' None\<rparr>)"
proof -
  have q: "''total sales by customer'' \<noteq> []" by simp
  have c: "\<And>d r. getTableAndColumnNames (sampleEnv d r) = Inr (groupColumns sampleCatalog [])"
    by (simp add: getTableAndColumnNames_def sampleEnv_def)
  have x: "\<And>d r sql. queryRawUnsafe (sampleEnv d r) sql = r"
    by (simp add: sampleEnv_def)
  have nk: "\<not> containsChartKeyword ''total sales by customer''"
    by (simp add: containsChartKeyword_def chartKeywords_def toLowerCase_def toLowerChar_def)
  have f: "\<And>r p. generateContent (sampleEnv (Inl (Error ''quota exceeded'')) r) ChartDecision p
      = Inl (Error ''quota exceeded'')"
    by (simp add: sampleEnv_def sampleModel_def)
  have t: "trim ''Alice has 500 and Bob has 300. '' = ''Alice has 500 and Bob has 300.''"
    by (simp add: trim_def isWhiteSpace_def)
  show ?thesis
    using fatal_and_nonfatal_failures
        [OF q, of "sampleEnv (Inr ''NO'') (Inl (Error ''You have an error in your SQL syntax''))"]
      fatal_and_nonfatal_failures [OF q, of "sampleEnv (Inr ''NO'') (Inl (Error []))"]
      fatal_and_nonfatal_failures
        [OF q, of "sampleEnv (Inl (Error ''quota exceeded'')) (Inr sampleRows)"]
      c x nk f sample_sql sample_sql_kept
      sample_mandatory [of "Inl (Error ''quota exceeded'')" "''total sales by customer''"]
    by (simp add: t errorResponse_def)
qed

end
